theory Spec2Isabelle
  imports Complex_Main
begin

section \<open>JavaScript numbers\<close>

text \<open>
  The detector of \<^verbatim>\<open>src/easy-seeso.js\<close> (class \<^verbatim>\<open>PangDetector\<close>) computes with
  JavaScript numbers read from typed arrays. A number is modelled as an exact real or
  \<^verbatim>\<open>NaN\<close>: arithmetic with \<^verbatim>\<open>NaN\<close> gives \<^verbatim>\<open>NaN\<close> and every comparison with
  \<^verbatim>\<open>NaN\<close> is false, as in the language. A read outside a typed array gives
  \<^verbatim>\<open>undefined\<close>, which the detector only ever uses in arithmetic and comparisons,
  where it behaves as \<^verbatim>\<open>NaN\<close>; it is modelled as \<^verbatim>\<open>NaN\<close>. The two bounds of a
  line's band, which the hit-test computes and compares with the gaze, are rounded to
  binary64 as the language does; the other arithmetic is exact, and the infinities are
  not modelled.
\<close>

datatype jsnum = NaN | Num real

instantiation jsnum :: "{plus, minus, times, inverse, abs, ord}"
begin

fun plus_jsnum :: "jsnum \<Rightarrow> jsnum \<Rightarrow> jsnum" where
  "plus_jsnum (Num a) (Num b) = Num (a + b)"
| "plus_jsnum _ _ = NaN"

fun minus_jsnum :: "jsnum \<Rightarrow> jsnum \<Rightarrow> jsnum" where
  "minus_jsnum (Num a) (Num b) = Num (a - b)"
| "minus_jsnum _ _ = NaN"

fun times_jsnum :: "jsnum \<Rightarrow> jsnum \<Rightarrow> jsnum" where
  "times_jsnum (Num a) (Num b) = Num (a * b)"
| "times_jsnum _ _ = NaN"

text \<open>The detector divides only by a delta it has just tested to be positive.\<close>

fun divide_jsnum :: "jsnum \<Rightarrow> jsnum \<Rightarrow> jsnum" where
  "divide_jsnum (Num a) (Num b) = Num (a / b)"
| "divide_jsnum _ _ = NaN"

fun inverse_jsnum :: "jsnum \<Rightarrow> jsnum" where
  "inverse_jsnum (Num a) = Num (inverse a)"
| "inverse_jsnum NaN = NaN"

fun abs_jsnum :: "jsnum \<Rightarrow> jsnum" where
  "abs_jsnum (Num a) = Num \<bar>a\<bar>"
| "abs_jsnum NaN = NaN"

fun less_eq_jsnum :: "jsnum \<Rightarrow> jsnum \<Rightarrow> bool" where
  "less_eq_jsnum (Num a) (Num b) = (a \<le> b)"
| "less_eq_jsnum _ _ = False"

fun less_jsnum :: "jsnum \<Rightarrow> jsnum \<Rightarrow> bool" where
  "less_jsnum (Num a) (Num b) = (a < b)"
| "less_jsnum _ _ = False"

instance ..

end

text \<open>
  Rounding a real to binary64: to the nearest multiple of the unit in the last place of
  its binade, ties to the even multiple; below \<open>2 ^ -1022\<close> the unit is that of the
  subnormal numbers. Overflow is not modelled.
\<close>

definition pow2 :: "int \<Rightarrow> real" where
  "pow2 k = (if 0 \<le> k then 2 ^ nat k else 1 / 2 ^ nat (- k))"

definition roundEven :: "real \<Rightarrow> int" where
  "roundEven r =
     (let f = \<lfloor>r\<rfloor>; d = r - of_int f
      in if d < 1 / 2 then f else if 1 / 2 < d then f + 1 else if even f then f else f + 1)"

definition binade :: "real \<Rightarrow> int" where
  "binade x = max \<lfloor>log 2 \<bar>x\<bar>\<rfloor> (- 1022)"

definition roundDouble :: "real \<Rightarrow> real" where
  "roundDouble x =
     (if x = 0 then 0
      else pow2 (binade x - 52) * of_int (roundEven (x / pow2 (binade x - 52))))"

fun roundNum :: "jsnum \<Rightarrow> jsnum" where
  "roundNum NaN = NaN"
| "roundNum (Num a) = Num (roundDouble a)"

text \<open>\<^verbatim>\<open>!v\<close> on a number: true for zero and for \<^verbatim>\<open>NaN\<close>.\<close>

fun falsy :: "jsnum \<Rightarrow> bool" where
  "falsy NaN = True"
| "falsy (Num a) = (a = 0)"

text \<open>
  \<^verbatim>\<open>a % n\<close> on integers: the remainder takes the sign of the dividend, and a zero
  divisor gives \<^verbatim>\<open>NaN\<close> (here \<open>None\<close>).
\<close>

definition jsmod :: "int \<Rightarrow> int \<Rightarrow> int option" where
  "jsmod a n = (if n = 0 then None else Some (sgn a * (\<bar>a\<bar> mod \<bar>n\<bar>)))"

text \<open>Reading a typed array at a computed index; outside the array the read is undefined.\<close>

definition rd :: "jsnum list \<Rightarrow> int option \<Rightarrow> jsnum" where
  "rd a i = (case i of None \<Rightarrow> NaN
             | Some k \<Rightarrow> if 0 \<le> k \<and> k < int (length a) then a ! nat k else NaN)"

section \<open>The detector's data\<close>

text \<open>
  The three sample buffers belong to the caller (\<^verbatim>\<open>Game\<close>), which writes them between
  calls; the detector keeps references only. They are therefore an argument of every
  processing step.
\<close>

record bufs =
  gx :: "jsnum list"
  gy :: "jsnum list"
  gt :: "jsnum list"

text \<open>
  The detector's fields, under the source's names without the leading underscore;
  \<open>bufSize\<close> is the field \<^verbatim>\<open>_N\<close>. Line indices and \<^verbatim>\<open>maxLineReached\<close> are
  integers, \<^verbatim>\<open>null\<close> is \<open>None\<close>.
\<close>

record detector =
  bufSize :: int
  sx1 :: jsnum
  sx2 :: jsnum
  vx2 :: jsnum
  lastPeakTime :: jsnum
  lastTriggerTime :: jsnum
  maxLineReached :: int
  firstContentTime :: jsnum
  lineYs :: "jsnum list option"
  lineHalf :: jsnum
  lineCount :: int
  currentLine :: "int option"
  lastLineChangeT :: jsnum

text \<open>The arguments of the trigger callback \<^verbatim>\<open>onPang(targetLine, vx1)\<close>.\<close>

type_synonym pang = "int \<times> jsnum"

text \<open>\<^verbatim>\<open>constructor(gxBuf, gyBuf, gtBuf, bufSize, onPang)\<close>\<close>

definition PangDetector :: "int \<Rightarrow> detector" where
  "PangDetector n =
     \<lparr> bufSize = n, sx1 = Num 0, sx2 = Num 0, vx2 = Num 0,
       lastPeakTime = Num 0, lastTriggerTime = Num 0, maxLineReached = - 1,
       firstContentTime = Num 0, lineYs = None, lineHalf = Num 0, lineCount = 0,
       currentLine = None, lastLineChangeT = Num 0 \<rparr>"

text \<open>
  \<^verbatim>\<open>lockLayout(lineYs, lineHalfH)\<close>; the last argument is the value of
  \<^verbatim>\<open>performance.now()\<close> at the call. The list \<open>ys\<close> is the content of the
  \<^verbatim>\<open>Float32Array\<close> that the call stores: the caller's own array when it passes one (as
  \<^verbatim>\<open>Game\<close> does), the converted copy otherwise.
\<close>

definition lockLayout :: "detector \<Rightarrow> jsnum list \<Rightarrow> jsnum \<Rightarrow> real \<Rightarrow> detector" where
  "lockLayout d ys lineHalfH perfNow =
     d \<lparr> lineYs := Some ys, lineHalf := lineHalfH, lineCount := int (length ys),
         firstContentTime := Num perfNow, maxLineReached := - 1, currentLine := None,
         lastLineChangeT := Num 0, lastPeakTime := Num 0, lastTriggerTime := Num 0,
         sx1 := Num 0, sx2 := Num 0, vx2 := Num 0 \<rparr>"

definition reset :: "detector \<Rightarrow> detector" where
  "reset d =
     d \<lparr> sx1 := Num 0, sx2 := Num 0, vx2 := Num 0, lastPeakTime := Num 0,
         lastTriggerTime := Num 0, maxLineReached := - 1, firstContentTime := Num 0,
         currentLine := None, lastLineChangeT := Num 0, lineYs := None, lineCount := 0 \<rparr>"

section \<open>Line hit-test\<close>

text \<open>
  The test of the loop's body, \<^verbatim>\<open>gazeY >= ys[i] - half && gazeY <= ys[i] + half\<close>, for
  the centre \<open>c = ys[i]\<close>: each bound is the rounded difference or sum.
\<close>

definition inBand :: "jsnum \<Rightarrow> jsnum \<Rightarrow> jsnum \<Rightarrow> bool" where
  "inBand c half gazeY = (gazeY \<ge> roundNum (c - half) \<and> gazeY \<le> roundNum (c + half))"

text \<open>The loop of \<^verbatim>\<open>_updateLineFromGaze\<close>: the index of the first band holding the gaze.\<close>

function scanLines :: "jsnum list \<Rightarrow> jsnum \<Rightarrow> jsnum \<Rightarrow> int \<Rightarrow> int \<Rightarrow> int option" where
  "scanLines ys half gazeY n i =
     (if i < n then
        (if inBand (rd ys (Some i)) half gazeY then Some i
         else scanLines ys half gazeY n (i + 1))
      else None)"
  by pat_completeness auto
termination
  by (relation "measure (\<lambda>(ys, half, gazeY, n, i). nat (n - i))") auto

declare scanLines.simps [simp del]

definition updateLineFromGaze :: "detector \<Rightarrow> jsnum \<Rightarrow> jsnum \<Rightarrow> detector" where
  "updateLineFromGaze d gazeY t =
     (case lineYs d of
        None \<Rightarrow> d
      | Some ys \<Rightarrow>
          if lineCount d = 0 then d
          else (case scanLines ys (lineHalf d) gazeY (lineCount d) 0 of
                  None \<Rightarrow> d
                | Some i \<Rightarrow>
                    if Some i \<noteq> currentLine d
                    then d \<lparr> currentLine := Some i, lastLineChangeT := t \<rparr>
                    else d))"

section \<open>The processing step\<close>

text \<open>The three newest samples, read at ring offsets 1, 2 and 3 behind the write index.\<close>

record frame =
  f_t0 :: jsnum
  f_t1 :: jsnum
  f_t2 :: jsnum
  f_x0 :: jsnum
  f_x1 :: jsnum
  f_x2 :: jsnum
  f_y0 :: jsnum

definition readFrame :: "int \<Rightarrow> bufs \<Rightarrow> int \<Rightarrow> frame" where
  "readFrame n b gIdx =
     (let i0 = jsmod (gIdx - 1 + n) n;
          i1 = jsmod (gIdx - 2 + n) n;
          i2 = jsmod (gIdx - 3 + n) n
      in \<lparr> f_t0 = rd (gt b) i0, f_t1 = rd (gt b) i1, f_t2 = rd (gt b) i2,
           f_x0 = rd (gx b) i0, f_x1 = rd (gx b) i1, f_x2 = rd (gx b) i2,
           f_y0 = rd (gy b) i0 \<rparr>)"

text \<open>The values computed by sections A to E of \<^verbatim>\<open>process\<close>.\<close>

record locals =
  l_sx0 :: jsnum
  l_vx0 :: jsnum
  l_vx1 :: jsnum
  l_isPosPeak :: bool
  l_isVelZeroCross :: bool
  l_isVelValley :: bool
  l_isDeepEnough :: bool

text \<open>
  Sections A to E: hit-test, smoothing, velocities, peak tracking and the two valley
  tests, with the cache updates in the order of the source.
\<close>

definition analyse :: "detector \<Rightarrow> frame \<Rightarrow> detector \<times> locals" where
  "analyse d f =
     (let dA = updateLineFromGaze d (f_y0 f) (f_t0 f);
          sx0 = f_x0 f * Num 0.5 + f_x1 f * Num 0.3 + f_x2 f * Num 0.2;
          sx1v = sx1 dA;
          sx2v = sx2 dA;
          dB = dA \<lparr> sx2 := sx1v, sx1 := sx0 \<rparr>;
          dt0 = f_t0 f - f_t1 f;
          dt1 = f_t1 f - f_t2 f;
          vx0 = (if dt0 > Num 0 then (f_x0 f - f_x1 f) / dt0 else Num 0);
          vx1 = (if dt1 > Num 0 then (f_x1 f - f_x2 f) / dt1 else Num 0);
          vx2v = vx2 dB;
          dC = dB \<lparr> vx2 := vx1 \<rparr>;
          isPosPeak = (sx1v \<ge> sx2v \<and> sx1v > sx0);
          isVelZeroCross = (vx1 \<ge> Num 0 \<and> vx0 < Num 0);
          dD = (if isPosPeak \<or> isVelZeroCross then dC \<lparr> lastPeakTime := f_t1 f \<rparr> else dC);
          isVelValley = (vx2v > vx1 \<and> vx1 < vx0);
          isDeepEnough = (vx1 < Num (- 0.4))
      in (dD, \<lparr> l_sx0 = sx0, l_vx0 = vx0, l_vx1 = vx1, l_isPosPeak = isPosPeak,
                l_isVelZeroCross = isVelZeroCross, l_isVelValley = isVelValley,
                l_isDeepEnough = isDeepEnough \<rparr>))"

text \<open>
  The exit of section E and sections F, G and FIRE: the result is the new state and the
  arguments of the callback when it is invoked.
\<close>

definition gate :: "detector \<Rightarrow> frame \<Rightarrow> locals \<Rightarrow> detector \<times> pang option" where
  "gate d f l =
     (if \<not> l_isVelValley l \<or> \<not> l_isDeepEnough l then (d, None)
      else
        let now = f_t0 f in
        if falsy (firstContentTime d) \<or> now < firstContentTime d then (d, None)
        else if now - lastTriggerTime d < Num 500 then (d, None)
        else if \<bar>f_t1 f - lastPeakTime d\<bar> \<ge> Num 600 then (d, None)
        else
          (case currentLine d of
             None \<Rightarrow> (d, None)
           | Some line \<Rightarrow>
               if line = 0 then (d, None)
               else if line \<le> maxLineReached d then (d, None)
               else (d \<lparr> lastTriggerTime := now, maxLineReached := line,
                         lastPeakTime := Num 0 \<rparr>,
                     Some (line - 1, l_vx1 l))))"

definition process :: "detector \<Rightarrow> bufs \<Rightarrow> int \<Rightarrow> int \<Rightarrow> detector \<times> pang option" where
  "process d b gIdx gCount =
     (if gCount < 3 then (d, None)
      else
        let f = readFrame (bufSize d) b gIdx;
            (dD, l) = analyse d f
        in gate dD f l)"

text \<open>
  Names for what a call of \<^verbatim>\<open>process\<close> with at least three buffered samples works on:
  the frame it reads, the state after sections A to E, and the values computed there.
\<close>

abbreviation frameOf :: "detector \<Rightarrow> bufs \<Rightarrow> int \<Rightarrow> frame" where
  "frameOf d b gIdx \<equiv> readFrame (bufSize d) b gIdx"

abbreviation analysed :: "detector \<Rightarrow> bufs \<Rightarrow> int \<Rightarrow> detector" where
  "analysed d b gIdx \<equiv> fst (analyse d (readFrame (bufSize d) b gIdx))"

abbreviation localsOf :: "detector \<Rightarrow> bufs \<Rightarrow> int \<Rightarrow> locals" where
  "localsOf d b gIdx \<equiv> snd (analyse d (readFrame (bufSize d) b gIdx))"

section \<open>Sequences of calls\<close>

text \<open>One call of \<^verbatim>\<open>process\<close>: the buffers as they are at the call, and its two arguments.\<close>

type_synonym input = "bufs \<times> int \<times> int"

text \<open>
  A content block is a sequence of \<^verbatim>\<open>process\<close> calls with no \<^verbatim>\<open>lockLayout\<close> or
  \<^verbatim>\<open>reset\<close> between them. \<open>run\<close> gives what each call passes to the callback, if
  anything, and \<open>final\<close> the state after the last call.
\<close>

fun run :: "detector \<Rightarrow> input list \<Rightarrow> pang option list" where
  "run d [] = []"
| "run d ((b, gIdx, gCount) # ins) =
     snd (process d b gIdx gCount) # run (fst (process d b gIdx gCount)) ins"

fun final :: "detector \<Rightarrow> input list \<Rightarrow> detector" where
  "final d [] = d"
| "final d ((b, gIdx, gCount) # ins) = final (fst (process d b gIdx gCount)) ins"

text \<open>The calls made on the callback, in order.\<close>

fun fired :: "pang option list \<Rightarrow> pang list" where
  "fired [] = []"
| "fired (None # os) = fired os"
| "fired (Some p # os) = p # fired os"

text \<open>The newest sample's timestamp (\<^verbatim>\<open>now\<close>) of a call.\<close>

definition nowOf :: "int \<Rightarrow> input \<Rightarrow> jsnum" where
  "nowOf n inp = (case inp of (b, gIdx, gCount) \<Rightarrow> f_t0 (readFrame n b gIdx))"

text \<open>The timestamps \<^verbatim>\<open>now\<close> of the calls that invoked the callback.\<close>

fun firedTimes :: "int \<Rightarrow> input list \<Rightarrow> pang option list \<Rightarrow> jsnum list" where
  "firedTimes n (inp # ins) (Some p # os) = nowOf n inp # firedTimes n ins os"
| "firedTimes n (inp # ins) (None # os) = firedTimes n ins os"
| "firedTimes n _ _ = []"

text \<open>The public operations, for histories that lock and reset as well.\<close>

datatype call = LockLayout "jsnum list" jsnum real | Process bufs int int | Reset

fun exec :: "detector \<Rightarrow> call \<Rightarrow> detector \<times> pang option" where
  "exec d (LockLayout ys h perfNow) = (lockLayout d ys h perfNow, None)"
| "exec d (Process b gIdx gCount) = process d b gIdx gCount"
| "exec d Reset = (reset d, None)"

fun execs :: "detector \<Rightarrow> call list \<Rightarrow> detector \<times> pang list" where
  "execs d [] = (d, [])"
| "execs d (c # cs) =
     (case exec d c of (d', out) \<Rightarrow>
        (case execs d' cs of (d'', ps) \<Rightarrow>
           (d'', (case out of None \<Rightarrow> ps | Some p \<Rightarrow> p # ps))))"

text \<open>Whether a call is \<^verbatim>\<open>lockLayout\<close>.\<close>

fun isLock :: "call \<Rightarrow> bool" where
  "isLock (LockLayout ys h perfNow) = True"
| "isLock _ = False"

text \<open>A sequence of hit-tests, one per sample, each given the gaze Y and the timestamp.\<close>

fun hitTests :: "detector \<Rightarrow> (jsnum \<times> jsnum) list \<Rightarrow> detector" where
  "hitTests d [] = d"
| "hitTests d ((y, t) # yts) = hitTests (updateLineFromGaze d y t) yts"

section \<open>The formulas of the specification\<close>

text \<open>
  Specification, section 4.3: the smoothed X is
  \<open>0.5 x(t) + 0.3 x(t-1) + 0.2 x(t-2)\<close>, and the velocity is
  \<open>(x(t) - x(t-1)) / (t(t) - t(t-1))\<close>, or 0 if the timestamp delta is at most 0.
\<close>

definition spec_smoothX :: "jsnum \<Rightarrow> jsnum \<Rightarrow> jsnum \<Rightarrow> jsnum" where
  "spec_smoothX xt xt1 xt2 = Num 0.5 * xt + Num 0.3 * xt1 + Num 0.2 * xt2"

definition spec_velocity :: "jsnum \<Rightarrow> jsnum \<Rightarrow> jsnum \<Rightarrow> jsnum \<Rightarrow> jsnum" where
  "spec_velocity xt xt1 tt tt1 =
     (if tt - tt1 \<le> Num 0 then Num 0 else (xt - xt1) / (tt - tt1))"

text \<open>
  Specification, section 4.2: the first index \<open>i\<close> with
  \<open>|y - centerY[i]| \<le> halfHeight\<close>, and the previously returned index when no line
  matches.
\<close>

definition spec_locate :: "jsnum list \<Rightarrow> jsnum \<Rightarrow> jsnum \<Rightarrow> int option \<Rightarrow> int option" where
  "spec_locate centerY halfHeight y prev =
     (case List.find (\<lambda>i. \<bar>y - centerY ! i\<bar> \<le> halfHeight) [0..<length centerY] of
        None \<Rightarrow> prev
      | Some i \<Rightarrow> Some (int i))"

section \<open>Concrete scenarios\<close>

text \<open>Buffers holding the given samples \<open>(x, y, t)\<close>, slot by slot.\<close>

definition mkBufs :: "(real \<times> real \<times> real) list \<Rightarrow> bufs" where
  "mkBufs ss = \<lparr> gx = map (\<lambda>(x, y, t). Num x) ss, gy = map (\<lambda>(x, y, t). Num y) ss,
                 gt = map (\<lambda>(x, y, t). Num t) ss \<rparr>"

text \<open>
  A detector on a ring of three slots, locked on three lines centred at 100, 140 and 180
  with half-height 15.
\<close>

definition locked3 :: detector where
  "locked3 = lockLayout (PangDetector 3) [Num 100, Num 140, Num 180] (Num 15) 1"

text \<open>
  Nine samples written to the ring one after the other, and the seven calls of
  \<^verbatim>\<open>process\<close> from the third sample on: line 0 is read left to right, the gaze snaps back
  onto line 1, reads it, and snaps back onto line 2.
\<close>

definition sweepInputs :: "input list" where
  "sweepInputs =
     [(mkBufs [(100, 100, 1000), (300, 100, 1033), (500, 100, 1066)], 0, 3),
      (mkBufs [(20, 140, 1099), (300, 100, 1033), (500, 100, 1066)], 1, 3),
      (mkBufs [(20, 140, 1099), (40, 140, 1132), (500, 100, 1066)], 2, 3),
      (mkBufs [(20, 140, 1099), (40, 140, 1132), (300, 140, 1600)], 0, 3),
      (mkBufs [(500, 140, 1700), (40, 140, 1132), (300, 140, 1600)], 1, 3),
      (mkBufs [(500, 140, 1700), (20, 180, 1733), (300, 140, 1600)], 2, 3),
      (mkBufs [(500, 140, 1700), (20, 180, 1733), (40, 180, 1766)], 0, 3)]"

text \<open>The same history as calls on a fresh detector, the lock included.\<close>

definition sweepCalls :: "call list" where
  "sweepCalls =
     LockLayout [Num 100, Num 140, Num 180] (Num 15) 1
       # map (\<lambda>(b, gIdx, gCount). Process b gIdx gCount) sweepInputs"

text \<open>
  Two calls whose buffers carry out-of-order timestamps: the first records a peak at
  1200, the second finds a valley at 1100.
\<close>

definition jitterPeak :: input where
  "jitterPeak = (mkBufs [(100, 140, 1100), (300, 140, 1200), (250, 140, 1233)], 0, 3)"

definition jitterValley :: input where
  "jitterValley = (mkBufs [(500, 140, 1000), (20, 140, 1100), (600, 140, 1133)], 0, 3)"

text \<open>
  A layout of one line centred at 100 whose half-height is the double just below 22, and
  so prints as 21.999999999999996.
\<close>

definition edgeHalf :: real where
  "edgeHalf = 22 - 1 / 2 ^ 48"

definition edgeLayout :: detector where
  "edgeLayout = lockLayout (PangDetector 3) [Num 100] (Num edgeHalf) 1"

text \<open>
  A history that locks the layout a second time: a peak and a valley on line 1, the new
  lock, and a peak and a valley on line 2, the two valleys 134 ms apart.
\<close>

definition relockPeak1 :: input where
  "relockPeak1 = (mkBufs [(100, 140, 1100), (300, 140, 1200), (250, 140, 1232)], 0, 3)"

definition relockValley1 :: input where
  "relockValley1 = (mkBufs [(500, 140, 1200), (20, 140, 1232), (600, 140, 1264)], 0, 3)"

definition relockPeak2 :: input where
  "relockPeak2 = (mkBufs [(100, 180, 1270), (300, 180, 1302), (250, 180, 1334)], 0, 3)"

definition relockValley2 :: input where
  "relockValley2 = (mkBufs [(500, 180, 1334), (20, 180, 1366), (600, 180, 1398)], 0, 3)"

definition relockCalls :: "call list" where
  "relockCalls =
     [LockLayout [Num 100, Num 140, Num 180] (Num 15) 1,
      Process (fst relockPeak1) 0 3, Process (fst relockValley1) 0 3,
      LockLayout [Num 100, Num 140, Num 180] (Num 15) 1,
      Process (fst relockPeak2) 0 3, Process (fst relockValley2) 0 3]"

text \<open>A call whose two newest samples carry the same timestamp.\<close>

definition stalledInput :: input where
  "stalledInput = (mkBufs [(100, 100, 1000), (300, 100, 1033), (500, 100, 1033)], 0, 3)"

text \<open>A layout of two lines whose bands overlap between 95 and 115.\<close>

definition overlapping :: detector where
  "overlapping = lockLayout (PangDetector 3) [Num 100, Num 110] (Num 15) 1"

section \<open>Facts about rounding\<close>

lemma pow2_powr: "pow2 k = 2 powr (of_int k)"
  by (simp add: pow2_def powr_int)

lemma binade_eq:
  assumes "- 1022 \<le> k" and "pow2 k \<le> \<bar>x\<bar>" and "\<bar>x\<bar> < pow2 (k + 1)"
  shows "binade x = k"
proof -
  have p: "0 < pow2 k" by (simp add: pow2_def)
  with assms(2) have pos: "0 < \<bar>x\<bar>" by linarith
  from assms(2,3) have "2 powr (of_int k) \<le> \<bar>x\<bar> \<and> \<bar>x\<bar> < 2 powr (of_int k + 1)"
    by (simp add: pow2_powr)
  with floor_log_eq_powr_iff[OF pos, of 2 k] have "\<lfloor>log 2 \<bar>x\<bar>\<rfloor> = k" by simp
  with assms(1) show ?thesis by (simp add: binade_def)
qed

lemma roundDouble_binade:
  assumes "- 1022 \<le> k" and "pow2 k \<le> \<bar>x\<bar>" and "\<bar>x\<bar> < pow2 (k + 1)"
  shows "roundDouble x = pow2 (k - 52) * of_int (roundEven (x / pow2 (k - 52)))"
proof -
  have "0 < pow2 k" by (simp add: pow2_def)
  with assms(2) have "x \<noteq> 0" by auto
  with binade_eq[OF assms] show ?thesis by (simp add: roundDouble_def)
qed

lemma roundDouble_values:
  "roundDouble 85 = 85" "roundDouble 115 = 115" "roundDouble 125 = 125"
  "roundDouble 155 = 155" "roundDouble 165 = 165" "roundDouble 195 = 195"
  "roundDouble 95 = 95"
  by (simp_all add: roundDouble_binade[of 6] roundDouble_binade[of 7] pow2_def roundEven_def)

lemma roundDouble_edge:
  "roundDouble (100 + edgeHalf) = 122"
  "roundDouble (100 - edgeHalf) = 78"
  by (simp_all add: edgeHalf_def roundDouble_binade[of 6] pow2_def roundEven_def)

section \<open>Facts about one step\<close>

lemmas eval_defs = locked3_def sweepInputs_def mkBufs_def lockLayout_def PangDetector_def
  process_def readFrame_def analyse_def gate_def updateLineFromGaze_def rd_def jsmod_def
  scanLines.simps inBand_def roundDouble_values Let_def reset_def

lemma gate_None: "snd (gate d f l) = None \<Longrightarrow> fst (gate d f l) = d"
  by (auto simp: gate_def Let_def split: if_splits option.splits)

lemma gate_Some:
  assumes "snd (gate d f l) = Some (tgt, v)"
  shows "\<exists>line. currentLine d = Some line \<and> line \<noteq> 0 \<and> maxLineReached d < line \<and>
           tgt = line - 1 \<and> v = l_vx1 l \<and>
           fst (gate d f l) = d \<lparr> lastTriggerTime := f_t0 f, maxLineReached := line,
                                    lastPeakTime := Num 0 \<rparr>"
    and "l_isVelValley l" and "l_isDeepEnough l"
    and "\<not> falsy (firstContentTime d)" and "\<not> f_t0 f < firstContentTime d"
    and "\<not> f_t0 f - lastTriggerTime d < Num 500"
    and "\<not> Num 600 \<le> \<bar>f_t1 f - lastPeakTime d\<bar>"
  using assms by (auto simp: gate_def Let_def split: if_splits option.splits)

lemma gate_currentLine: "currentLine (fst (gate d f l)) = currentLine d"
  by (simp add: gate_def Let_def split: option.splits)

lemma updateLine_fields [simp]:
  "bufSize (updateLineFromGaze d y t) = bufSize d"
  "sx1 (updateLineFromGaze d y t) = sx1 d"
  "sx2 (updateLineFromGaze d y t) = sx2 d"
  "vx2 (updateLineFromGaze d y t) = vx2 d"
  "lastPeakTime (updateLineFromGaze d y t) = lastPeakTime d"
  "lastTriggerTime (updateLineFromGaze d y t) = lastTriggerTime d"
  "maxLineReached (updateLineFromGaze d y t) = maxLineReached d"
  "firstContentTime (updateLineFromGaze d y t) = firstContentTime d"
  "lineYs (updateLineFromGaze d y t) = lineYs d"
  "lineHalf (updateLineFromGaze d y t) = lineHalf d"
  "lineCount (updateLineFromGaze d y t) = lineCount d"
  by (simp_all add: updateLineFromGaze_def split: option.splits)

lemma analyse_fields [simp]:
  "bufSize (fst (analyse d f)) = bufSize d"
  "lastTriggerTime (fst (analyse d f)) = lastTriggerTime d"
  "maxLineReached (fst (analyse d f)) = maxLineReached d"
  "firstContentTime (fst (analyse d f)) = firstContentTime d"
  "lineYs (fst (analyse d f)) = lineYs d"
  "lineHalf (fst (analyse d f)) = lineHalf d"
  "lineCount (fst (analyse d f)) = lineCount d"
  "currentLine (fst (analyse d f)) = currentLine (updateLineFromGaze d (f_y0 f) (f_t0 f))"
  "lastLineChangeT (fst (analyse d f)) = lastLineChangeT (updateLineFromGaze d (f_y0 f) (f_t0 f))"
  by (simp_all add: analyse_def Let_def)

lemma process_small: "gCount < 3 \<Longrightarrow> process d b gIdx gCount = (d, None)"
  by (simp add: process_def)

lemma process_large:
  "\<not> gCount < 3 \<Longrightarrow>
     process d b gIdx gCount =
       gate (fst (analyse d (readFrame (bufSize d) b gIdx))) (readFrame (bufSize d) b gIdx)
            (snd (analyse d (readFrame (bufSize d) b gIdx)))"
  by (simp add: process_def Let_def split: prod.splits)

lemma process_None_maxLine:
  "snd (process d b gIdx gCount) = None \<Longrightarrow>
     maxLineReached (fst (process d b gIdx gCount)) = maxLineReached d"
  by (cases "gCount < 3") (simp_all add: process_small process_large gate_None)

lemma process_Some_line:
  assumes "snd (process d b gIdx gCount) = Some (tgt, v)"
  shows "currentLine (fst (process d b gIdx gCount)) = Some (tgt + 1)"
    and "maxLineReached d < tgt + 1"
    and "maxLineReached (fst (process d b gIdx gCount)) = tgt + 1"
    and "tgt + 1 \<noteq> 0"
proof -
  let ?f = "readFrame (bufSize d) b gIdx"
  from assms have big: "\<not> gCount < 3" by (auto simp: process_small)
  with assms have g: "snd (gate (fst (analyse d ?f)) ?f (snd (analyse d ?f))) = Some (tgt, v)"
    by (simp add: process_large)
  from gate_Some(1)[OF g] obtain line where
    L: "currentLine (fst (analyse d ?f)) = Some line" "line \<noteq> 0"
       "maxLineReached (fst (analyse d ?f)) < line" "tgt = line - 1"
       "fst (gate (fst (analyse d ?f)) ?f (snd (analyse d ?f))) =
          (fst (analyse d ?f)) \<lparr> lastTriggerTime := f_t0 ?f, maxLineReached := line,
                                   lastPeakTime := Num 0 \<rparr>"
    by blast
  from L big show "currentLine (fst (process d b gIdx gCount)) = Some (tgt + 1)"
    by (simp add: process_large)
  from L show "maxLineReached d < tgt + 1" by simp
  from L big show "maxLineReached (fst (process d b gIdx gCount)) = tgt + 1"
    by (simp add: process_large)
  from L show "tgt + 1 \<noteq> 0" by simp
qed

lemma process_bufSize [simp]: "bufSize (fst (process d b gIdx gCount)) = bufSize d"
proof (cases "gCount < 3")
  case True
  then show ?thesis by (simp add: process_small)
next
  case False
  let ?f = "readFrame (bufSize d) b gIdx"
  have "bufSize (fst (gate (fst (analyse d ?f)) ?f (snd (analyse d ?f)))) =
        bufSize (fst (analyse d ?f))"
    by (simp add: gate_def Let_def split: option.splits)
  with False show ?thesis by (simp add: process_large)
qed

lemma gate_caches [simp]:
  "sx1 (fst (gate d f l)) = sx1 d"
  "sx2 (fst (gate d f l)) = sx2 d"
  "vx2 (fst (gate d f l)) = vx2 d"
  by (simp_all add: gate_def Let_def split: option.splits)

lemma gate_static [simp]:
  "bufSize (fst (gate d f l)) = bufSize d"
  "lineHalf (fst (gate d f l)) = lineHalf d"
  by (simp_all add: gate_def Let_def split: option.splits)

lemma analyse_valley_tests:
  "l_isVelValley (snd (analyse d f)) =
     (vx2 d > l_vx1 (snd (analyse d f)) \<and> l_vx1 (snd (analyse d f)) < l_vx0 (snd (analyse d f)))"
  "l_isDeepEnough (snd (analyse d f)) = (l_vx1 (snd (analyse d f)) < Num (- 0.4))"
  by (simp_all add: analyse_def Let_def)

lemma analyse_peak_tests:
  "l_isPosPeak (snd (analyse d f)) = (sx1 d \<ge> sx2 d \<and> sx1 d > l_sx0 (snd (analyse d f)))"
  "l_isVelZeroCross (snd (analyse d f)) =
     (l_vx1 (snd (analyse d f)) \<ge> Num 0 \<and> l_vx0 (snd (analyse d f)) < Num 0)"
  by (simp_all add: analyse_def Let_def)

section \<open>Facts about the scenarios\<close>

lemma run_sweep:
  "run locked3 sweepInputs =
     [None, None, Some (0, Num (- (160 / 11))), None, None, None,
      Some (1, Num (- (160 / 11)))]"
  by (simp add: eval_defs)

lemma execs_processes:
  "execs d (map (\<lambda>(b, gIdx, gCount). Process b gIdx gCount) ins) =
     (final d ins, fired (run d ins))"
  by (induction ins arbitrary: d) (auto simp: split_beta split: option.splits)

lemma execs_sweep:
  "snd (execs (PangDetector 3) sweepCalls) = [(0, Num (- (160 / 11))), (1, Num (- (160 / 11)))]"
proof -
  have "execs (PangDetector 3) sweepCalls =
          (final locked3 sweepInputs, fired (run locked3 sweepInputs))"
    unfolding sweepCalls_def locked3_def by (simp add: execs_processes)
  then show ?thesis by (simp add: run_sweep)
qed

lemma noLock_tl_sweep: "\<forall>c \<in> set (tl sweepCalls). \<not> isLock c"
  by (simp add: sweepCalls_def sweepInputs_def)

section \<open>Monotonic line firing\<close>

lemma run_fired_above:
  "p \<in> set (fired (run d ins)) \<Longrightarrow> maxLineReached d < fst p + 1"
proof (induction ins arbitrary: d)
  case Nil
  then show ?case by simp
next
  case (Cons inp ins)
  obtain b gIdx gCount where inp: "inp = (b, gIdx, gCount)" by (cases inp) auto
  let ?d = "fst (process d b gIdx gCount)"
  show ?case
  proof (cases "snd (process d b gIdx gCount)")
    case None
    with Cons.prems inp have "p \<in> set (fired (run ?d ins))" by simp
    from Cons.IH[OF this] process_None_maxLine[OF None] show ?thesis by simp
  next
    case (Some q)
    obtain tgt v where q: "q = (tgt, v)" by (cases q) auto
    from Some q have s: "snd (process d b gIdx gCount) = Some (tgt, v)" by simp
    from Cons.prems inp Some have "p = q \<or> p \<in> set (fired (run ?d ins))" by auto
    then show ?thesis
    proof
      assume "p = q"
      with q process_Some_line(2)[OF s] show ?thesis by simp
    next
      assume "p \<in> set (fired (run ?d ins))"
      from Cons.IH[OF this] process_Some_line(2,3)[OF s] show ?thesis by simp
    qed
  qed
qed

lemma run_fired_sorted: "sorted_wrt (<) (map fst (fired (run d ins)))"
proof (induction ins arbitrary: d)
  case Nil
  then show ?case by simp
next
  case (Cons inp ins)
  obtain b gIdx gCount where inp: "inp = (b, gIdx, gCount)" by (cases inp) auto
  let ?d = "fst (process d b gIdx gCount)"
  show ?case
  proof (cases "snd (process d b gIdx gCount)")
    case None
    with inp Cons.IH[of ?d] show ?thesis by simp
  next
    case (Some q)
    obtain tgt v where q: "q = (tgt, v)" by (cases q) auto
    from Some q have s: "snd (process d b gIdx gCount) = Some (tgt, v)" by simp
    have "\<forall>p \<in> set (fired (run ?d ins)). tgt < fst p"
      using run_fired_above[of _ ?d ins] process_Some_line(3)[OF s] by fastforce
    with inp Some q Cons.IH[of ?d] show ?thesis by simp
  qed
qed

text \<open>
  Claim C1. In a content block (any sequence of \<^verbatim>\<open>process\<close> calls, from any detector
  state, with no lock or reset between them) the line indices passed to the callback are
  strictly increasing. Each call that fires leaves the hit-test line at the reported
  index plus one, that line exceeded \<open>maxLineReached\<close> before the call, and
  \<open>maxLineReached\<close> is that line after it.
\<close>

theorem monotonic_line_firing:
  "sorted_wrt (<) (map fst (fired (run d ins))) \<and>
   (\<forall>b gIdx gCount line v.
      snd (process d b gIdx gCount) = Some (line, v) \<longrightarrow>
        currentLine (fst (process d b gIdx gCount)) = Some (line + 1) \<and>
        maxLineReached d < line + 1 \<and>
        maxLineReached (fst (process d b gIdx gCount)) = line + 1)"
  using run_fired_sorted process_Some_line by blast

theorem monotonic_line_firing_witness:
  "sorted_wrt (<) (map fst (fired (run locked3 sweepInputs))) \<and>
   map fst (fired (run locked3 sweepInputs)) = [0, 1] \<and>
   snd (process (final locked3 (take 2 sweepInputs)) (fst (sweepInputs ! 2)) 2 3)
     = Some (0, Num (- (160 / 11))) \<and>
   currentLine (fst (process (final locked3 (take 2 sweepInputs)) (fst (sweepInputs ! 2)) 2 3))
     = Some 1 \<and>
   maxLineReached (final locked3 (take 2 sweepInputs)) < 1 \<and>
   maxLineReached (fst (process (final locked3 (take 2 sweepInputs)) (fst (sweepInputs ! 2)) 2 3))
     = 1"
proof -
  have fire: "snd (process (final locked3 (take 2 sweepInputs)) (fst (sweepInputs ! 2)) 2 3)
     = Some (0, Num (- (160 / 11)))"
    by (simp add: eval_defs)
  from monotonic_line_firing[of locked3 sweepInputs]
  have "sorted_wrt (<) (map fst (fired (run locked3 sweepInputs)))" by blast
  moreover have "map fst (fired (run locked3 sweepInputs)) = [0, 1]"
    by (simp add: run_sweep)
  moreover from monotonic_line_firing[of "final locked3 (take 2 sweepInputs)" "[]"] fire
  have "currentLine (fst (process (final locked3 (take 2 sweepInputs)) (fst (sweepInputs ! 2)) 2 3))
     = Some (0 + 1) \<and>
   maxLineReached (final locked3 (take 2 sweepInputs)) < 0 + 1 \<and>
   maxLineReached (fst (process (final locked3 (take 2 sweepInputs)) (fst (sweepInputs ! 2)) 2 3))
     = 0 + 1"
    by blast
  ultimately show ?thesis using fire by simp
qed

section \<open>No firing without a layout\<close>

lemma updateLine_noLayout: "lineYs d = None \<Longrightarrow> updateLineFromGaze d y t = d"
  by (simp add: updateLineFromGaze_def)

lemma gate_noLine: "currentLine d = None \<Longrightarrow> gate d f l = (d, None)"
  by (simp add: gate_def Let_def)

lemma process_noLayout:
  assumes "lineYs d = None" and "currentLine d = None"
  shows "snd (process d b gIdx gCount) = None"
    and "lineYs (fst (process d b gIdx gCount)) = None"
    and "currentLine (fst (process d b gIdx gCount)) = None"
proof -
  let ?f = "readFrame (bufSize d) b gIdx"
  from assms have c: "currentLine (fst (analyse d ?f)) = None"
    by (simp add: updateLine_noLayout)
  from assms have y: "lineYs (fst (analyse d ?f)) = None" by simp
  from c show "snd (process d b gIdx gCount) = None"
    by (cases "gCount < 3") (simp_all add: process_small process_large gate_noLine)
  from c y assms show "lineYs (fst (process d b gIdx gCount)) = None"
    by (cases "gCount < 3") (simp_all add: process_small process_large gate_noLine)
  from c assms show "currentLine (fst (process d b gIdx gCount)) = None"
    by (cases "gCount < 3") (simp_all add: process_small process_large gate_noLine)
qed

lemma execs_noLayout:
  assumes "\<forall>c \<in> set cs. \<not> isLock c" and "lineYs d = None" and "currentLine d = None"
  shows "snd (execs d cs) = [] \<and> lineYs (fst (execs d cs)) = None \<and>
         currentLine (fst (execs d cs)) = None"
  using assms
proof (induction cs arbitrary: d)
  case Nil
  then show ?case by simp
next
  case (Cons c cs)
  show ?case
  proof (cases c)
    case (LockLayout ys h perfNow)
    with Cons.prems show ?thesis by simp
  next
    case (Process b gIdx gCount)
    let ?d = "fst (process d b gIdx gCount)"
    from Cons.prems have r: "\<forall>c \<in> set cs. \<not> isLock c" by simp
    from process_noLayout[OF Cons.prems(2,3), of b gIdx gCount]
    have p: "snd (process d b gIdx gCount) = None" "lineYs ?d = None" "currentLine ?d = None"
      by simp_all
    from Cons.IH[OF r p(2,3)] p(1) Process show ?thesis
      by (simp add: split_beta)
  next
    case Reset
    from Cons.prems have r: "\<forall>c \<in> set cs. \<not> isLock c" by simp
    have "lineYs (reset d) = None" "currentLine (reset d) = None" by (simp_all add: reset_def)
    from Cons.IH[OF r this] Reset show ?thesis by (simp add: split_beta)
  qed
qed

text \<open>
  Claim C2. In a history of calls that never locks a layout, started on a fresh detector
  or right after a reset, \<^verbatim>\<open>process\<close> never invokes the callback, whatever the
  buffers hold: the hit-test returns at once, the current line stays unknown, and the
  gate's line guard rejects every valley.
\<close>

theorem no_prelock_firing:
  "(\<forall>c \<in> set cs. \<not> isLock c) \<longrightarrow>
     snd (execs (PangDetector n) cs) = [] \<and> currentLine (fst (execs (PangDetector n) cs)) = None \<and>
     snd (execs (reset d) cs) = [] \<and> currentLine (fst (execs (reset d) cs)) = None"
proof
  assume a: "\<forall>c \<in> set cs. \<not> isLock c"
  have "lineYs (PangDetector n) = None" "currentLine (PangDetector n) = None"
    by (simp_all add: PangDetector_def)
  from execs_noLayout[OF a this]
  have 1: "snd (execs (PangDetector n) cs) = [] \<and> currentLine (fst (execs (PangDetector n) cs)) = None"
    by simp
  have "lineYs (reset d) = None" "currentLine (reset d) = None" by (simp_all add: reset_def)
  from execs_noLayout[OF a this] 1
  show "snd (execs (PangDetector n) cs) = [] \<and> currentLine (fst (execs (PangDetector n) cs)) = None \<and>
     snd (execs (reset d) cs) = [] \<and> currentLine (fst (execs (reset d) cs)) = None"
    by simp
qed

theorem no_prelock_firing_witness:
  "snd (execs (PangDetector 3) sweepCalls) = [(0, Num (- (160 / 11))), (1, Num (- (160 / 11)))] \<and>
   snd (execs (PangDetector 3) (tl sweepCalls)) = [] \<and>
   currentLine (fst (execs (PangDetector 3) (tl sweepCalls))) = None \<and>
   snd (execs (reset (fst (execs (PangDetector 3) sweepCalls))) (tl sweepCalls)) = [] \<and>
   currentLine (fst (execs (reset (fst (execs (PangDetector 3) sweepCalls))) (tl sweepCalls))) = None"
  using no_prelock_firing[of "tl sweepCalls" 3 "fst (execs (PangDetector 3) sweepCalls)"]
    noLock_tl_sweep execs_sweep by blast

section \<open>The arguments of the callback\<close>

lemma scanLines_range: "scanLines ys h y n i = Some k \<Longrightarrow> i \<le> k \<and> k < n"
proof (induction ys h y n i rule: scanLines.induct)
  case (1 ys half gazeY n i)
  then show ?case
    by (subst (asm) (2) scanLines.simps) (auto split: if_splits)
qed

lemma updateLine_nonneg:
  assumes "\<forall>i. currentLine d = Some i \<longrightarrow> 0 \<le> i"
    and "currentLine (updateLineFromGaze d y t) = Some k"
  shows "0 \<le> k"
  using assms scanLines_range[of _ "lineHalf d" y "lineCount d" 0 ]
  by (fastforce simp: updateLineFromGaze_def split: option.splits if_splits)

lemma analyse_deep:
  "l_isDeepEnough (snd (analyse d f)) = (l_vx1 (snd (analyse d f)) < Num (- 0.4))"
  by (simp add: analyse_def Let_def)

lemma process_fire_args:
  assumes "\<forall>i. currentLine d = Some i \<longrightarrow> 0 \<le> i"
    and "snd (process d b gIdx gCount) = Some (tgt, v)"
  shows "0 \<le> tgt" and "v < Num (- 0.4)"
proof -
  let ?f = "readFrame (bufSize d) b gIdx"
  from assms(2) have big: "\<not> gCount < 3" by (auto simp: process_small)
  with assms(2) have g: "snd (gate (fst (analyse d ?f)) ?f (snd (analyse d ?f))) = Some (tgt, v)"
    by (simp add: process_large)
  from gate_Some(1)[OF g] obtain line where
    L: "currentLine (fst (analyse d ?f)) = Some line" "line \<noteq> 0" "tgt = line - 1"
       "v = l_vx1 (snd (analyse d ?f))"
    by blast
  from L(1) have "currentLine (updateLineFromGaze d (f_y0 ?f) (f_t0 ?f)) = Some line" by simp
  from updateLine_nonneg[OF assms(1) this] L show "0 \<le> tgt" by simp
  from gate_Some(3)[OF g] L(4) show "v < Num (- 0.4)" by (simp add: analyse_deep)
qed

lemma process_lineOk:
  assumes "\<forall>i. currentLine d = Some i \<longrightarrow> 0 \<le> i"
  shows "\<forall>i. currentLine (fst (process d b gIdx gCount)) = Some i \<longrightarrow> 0 \<le> i"
proof (cases "gCount < 3")
  case True
  with assms show ?thesis by (simp add: process_small)
next
  case False
  let ?f = "readFrame (bufSize d) b gIdx"
  let ?a = "analyse d ?f"
  have "currentLine (fst (gate (fst ?a) ?f (snd ?a))) = currentLine (fst ?a)"
    by (simp add: gate_def Let_def split: option.splits)
  with False updateLine_nonneg[OF assms] show ?thesis by (simp add: process_large)
qed

lemma execs_fire_args:
  assumes "\<forall>i. currentLine d = Some i \<longrightarrow> 0 \<le> i" and "p \<in> set (snd (execs d cs))"
  shows "0 \<le> fst p \<and> snd p < Num (- 0.4)"
  using assms
proof (induction cs arbitrary: d)
  case Nil
  then show ?case by simp
next
  case (Cons c cs)
  have ok: "\<forall>i. currentLine (fst (exec d c)) = Some i \<longrightarrow> 0 \<le> i"
  proof (cases c)
    case (Process b gIdx gCount)
    with process_lineOk[OF Cons.prems(1)] show ?thesis by simp
  qed (simp_all add: lockLayout_def reset_def)
  show ?case
  proof (cases "snd (exec d c)")
    case None
    with Cons.prems(2) have "p \<in> set (snd (execs (fst (exec d c)) cs))"
      by (simp add: split_beta)
    from Cons.IH[OF ok this] show ?thesis .
  next
    case (Some q)
    with Cons.prems(2) have "p = q \<or> p \<in> set (snd (execs (fst (exec d c)) cs))"
      by (auto simp: split_beta)
    then show ?thesis
    proof
      assume pq: "p = q"
      from Some obtain b gIdx gCount where c: "c = Process b gIdx gCount"
        by (cases c) simp_all
      with Some pq have "snd (process d b gIdx gCount) = Some (fst p, snd p)" by simp
      from process_fire_args[OF Cons.prems(1) this] show ?thesis by simp
    next
      assume "p \<in> set (snd (execs (fst (exec d c)) cs))"
      from Cons.IH[OF ok this] show ?thesis .
    qed
  qed
qed

lemma jsnum_less_trans: "(a::jsnum) < Num x \<Longrightarrow> x \<le> y \<Longrightarrow> a < Num y"
  by (cases a) simp_all

text \<open>
  Claim C3. In every history of calls on a fresh detector, each invocation of the
  callback passes a line index that is at least 0 and a velocity that is a number below
  \<open>-0.4\<close>, hence strictly negative. From any state, a call that fires leaves the
  hit-test line known and at the reported index plus one, so it does not fire while the
  line is 0 or unknown, and never reports \<open>-1\<close>.
\<close>

theorem trigger_arguments:
  "(\<forall>p \<in> set (snd (execs (PangDetector n) cs)).
      0 \<le> fst p \<and> snd p < Num 0 \<and> snd p < Num (- 0.4)) \<and>
   (\<forall>b gIdx gCount p.
      snd (process d b gIdx gCount) = Some p \<longrightarrow>
        currentLine (fst (process d b gIdx gCount)) = Some (fst p + 1) \<and> fst p \<noteq> - 1)"
proof
  have ok: "\<forall>i. currentLine (PangDetector n) = Some i \<longrightarrow> 0 \<le> i"
    by (simp add: PangDetector_def)
  show "\<forall>p \<in> set (snd (execs (PangDetector n) cs)).
      0 \<le> fst p \<and> snd p < Num 0 \<and> snd p < Num (- 0.4)"
  proof
    fix p assume "p \<in> set (snd (execs (PangDetector n) cs))"
    from execs_fire_args[OF ok this] have a: "0 \<le> fst p" "snd p < Num (- 0.4)" by simp_all
    from jsnum_less_trans[OF a(2), of 0] a
    show "0 \<le> fst p \<and> snd p < Num 0 \<and> snd p < Num (- 0.4)" by simp
  qed
  show "\<forall>b gIdx gCount p.
      snd (process d b gIdx gCount) = Some p \<longrightarrow>
        currentLine (fst (process d b gIdx gCount)) = Some (fst p + 1) \<and> fst p \<noteq> - 1"
  proof (intro allI impI)
    fix b gIdx gCount p
    assume "snd (process d b gIdx gCount) = Some p"
    then have "snd (process d b gIdx gCount) = Some (fst p, snd p)" by simp
    from process_Some_line(1,4)[OF this]
    show "currentLine (fst (process d b gIdx gCount)) = Some (fst p + 1) \<and> fst p \<noteq> - 1"
      by simp
  qed
qed

theorem trigger_arguments_witness:
  "snd (execs (PangDetector 3) sweepCalls) = [(0, Num (- (160 / 11))), (1, Num (- (160 / 11)))] \<and>
   (0::int) \<le> 0 \<and> Num (- (160 / 11)) < Num 0 \<and> Num (- (160 / 11)) < Num (- 0.4) \<and>
   currentLine (fst (process (final locked3 (take 2 sweepInputs)) (fst (sweepInputs ! 2)) 2 3))
     = Some 1"
proof -
  have fire: "snd (process (final locked3 (take 2 sweepInputs)) (fst (sweepInputs ! 2)) 2 3)
     = Some (0, Num (- (160 / 11)))"
    by (simp add: eval_defs)
  have mem: "(0, Num (- (160 / 11))) \<in> set (snd (execs (PangDetector 3) sweepCalls))"
    by (simp add: execs_sweep)
  from trigger_arguments[of 3 sweepCalls "final locked3 (take 2 sweepInputs)"] mem fire
  have "(0::int) \<le> 0 \<and> Num (- (160 / 11)) < Num 0 \<and> Num (- (160 / 11)) < Num (- 0.4) \<and>
   currentLine (fst (process (final locked3 (take 2 sweepInputs)) (fst (sweepInputs ! 2)) 2 3))
     = Some 1"
    by fastforce
  with execs_sweep show ?thesis by simp
qed

section \<open>Cooldown\<close>

lemma process_None_trigger:
  "snd (process d b gIdx gCount) = None \<Longrightarrow>
     lastTriggerTime (fst (process d b gIdx gCount)) = lastTriggerTime d"
  by (cases "gCount < 3") (simp_all add: process_small process_large gate_None)

lemma process_Some_trigger:
  assumes "snd (process d b gIdx gCount) = Some p"
  shows "\<not> nowOf (bufSize d) (b, gIdx, gCount) - lastTriggerTime d < Num 500"
    and "lastTriggerTime (fst (process d b gIdx gCount)) = nowOf (bufSize d) (b, gIdx, gCount)"
proof -
  let ?f = "readFrame (bufSize d) b gIdx"
  from assms have big: "\<not> gCount < 3" by (auto simp: process_small)
  with assms have g: "snd (gate (fst (analyse d ?f)) ?f (snd (analyse d ?f))) = Some (fst p, snd p)"
    by (simp add: process_large)
  from gate_Some(6)[OF g]
  show "\<not> nowOf (bufSize d) (b, gIdx, gCount) - lastTriggerTime d < Num 500"
    by (simp add: nowOf_def)
  from gate_Some(1)[OF g] big
  show "lastTriggerTime (fst (process d b gIdx gCount)) = nowOf (bufSize d) (b, gIdx, gCount)"
    by (auto simp: process_large nowOf_def)
qed

lemma cooldown_arith:
  "a \<noteq> NaN \<Longrightarrow> \<not> a - Num l < Num 500 \<Longrightarrow> Num l + Num 500 \<le> a"
  by (cases a) simp_all

lemma cooldown_trans:
  "Num l + Num 500 \<le> a \<Longrightarrow> a + Num 500 \<le> t \<Longrightarrow> Num l + Num 500 \<le> t"
  by (cases a; cases t) simp_all

lemma firedTimes_above:
  assumes "lastTriggerTime d = Num l"
    and "\<forall>inp \<in> set ins. nowOf (bufSize d) inp \<noteq> NaN"
    and "t \<in> set (firedTimes (bufSize d) ins (run d ins))"
  shows "Num l + Num 500 \<le> t"
  using assms
proof (induction ins arbitrary: d l)
  case Nil
  then show ?case by simp
next
  case (Cons inp ins)
  obtain b gIdx gCount where inp: "inp = (b, gIdx, gCount)" by (cases inp) auto
  let ?d = "fst (process d b gIdx gCount)"
  from Cons.prems(2) have fin: "\<forall>inp \<in> set ins. nowOf (bufSize ?d) inp \<noteq> NaN" by simp
  show ?case
  proof (cases "snd (process d b gIdx gCount)")
    case None
    with Cons.prems(3) inp have m: "t \<in> set (firedTimes (bufSize ?d) ins (run ?d ins))" by simp
    from process_None_trigger[OF None] Cons.prems(1) have "lastTriggerTime ?d = Num l" by simp
    from Cons.IH[OF this fin m] show ?thesis .
  next
    case (Some p)
    let ?now = "nowOf (bufSize d) (b, gIdx, gCount)"
    from Cons.prems(2) inp have "?now \<noteq> NaN" by simp
    then obtain a where a: "?now = Num a" by (cases ?now) simp_all
    from process_Some_trigger[OF Some] Cons.prems(1) a
    have le: "Num l + Num 500 \<le> Num a" and last: "lastTriggerTime ?d = Num a"
      by simp_all
    from Cons.prems(3) inp Some
    have "t = ?now \<or> t \<in> set (firedTimes (bufSize ?d) ins (run ?d ins))" by auto
    then show ?thesis
    proof
      assume "t = ?now"
      with a le show ?thesis by simp
    next
      assume "t \<in> set (firedTimes (bufSize ?d) ins (run ?d ins))"
      from Cons.IH[OF last fin this] have "Num a + Num 500 \<le> t" .
      from cooldown_trans[OF le this] show ?thesis .
    qed
  qed
qed

lemma firedTimes_sorted:
  assumes "\<forall>inp \<in> set ins. nowOf (bufSize d) inp \<noteq> NaN"
  shows "sorted_wrt (\<lambda>a b. a + Num 500 \<le> b) (firedTimes (bufSize d) ins (run d ins))"
  using assms
proof (induction ins arbitrary: d)
  case Nil
  then show ?case by simp
next
  case (Cons inp ins)
  obtain b gIdx gCount where inp: "inp = (b, gIdx, gCount)" by (cases inp) auto
  let ?d = "fst (process d b gIdx gCount)"
  from Cons.prems have fin: "\<forall>inp \<in> set ins. nowOf (bufSize ?d) inp \<noteq> NaN" by simp
  show ?case
  proof (cases "snd (process d b gIdx gCount)")
    case None
    with inp Cons.IH[OF fin] show ?thesis by simp
  next
    case (Some p)
    let ?now = "nowOf (bufSize d) (b, gIdx, gCount)"
    from Cons.prems inp have "?now \<noteq> NaN" by simp
    then obtain a where a: "?now = Num a" by (cases ?now) simp_all
    from process_Some_trigger(2)[OF Some] a have last: "lastTriggerTime ?d = Num a" by simp
    have "\<forall>t \<in> set (firedTimes (bufSize ?d) ins (run ?d ins)). ?now + Num 500 \<le> t"
      using firedTimes_above[OF last fin] a by simp
    with inp Some Cons.IH[OF fin] show ?thesis by simp
  qed
qed

lemma cooldown_ge:
  "a \<noteq> NaN \<Longrightarrow> l \<noteq> NaN \<Longrightarrow> \<not> a - l < Num 500 \<Longrightarrow> Num 500 \<le> a - l"
  by (cases a; cases l) simp_all

lemma relock_trace:
  "snd (execs (PangDetector 3) relockCalls) = [(0, Num (- 15)), (1, Num (- 15))]"
  "snd (process (final locked3 [relockPeak1]) (fst relockValley1) 0 3) = Some (0, Num (- 15))"
  "snd (process
         (final (lockLayout (final locked3 [relockPeak1, relockValley1])
                   [Num 100, Num 140, Num 180] (Num 15) 1) [relockPeak2])
         (fst relockValley2) 0 3) = Some (1, Num (- 15))"
  by (simp_all add: relockCalls_def relockPeak1_def relockValley1_def relockPeak2_def
      relockValley2_def eval_defs)

lemma relock_times:
  "nowOf 3 relockValley1 = Num 1264" "nowOf 3 relockValley2 = Num 1398"
  by (simp_all add: relockValley1_def relockValley2_def nowOf_def readFrame_def jsmod_def
      rd_def mkBufs_def)

text \<open>
  Claim C4 as stated does not hold across a lock. In the history below the layout is
  locked, a valley fires at \<^verbatim>\<open>now\<close> = 1264, the layout is locked again, which sets
  \<^verbatim>\<open>lastTriggerTime\<close> back to 0, and a second valley fires at \<^verbatim>\<open>now\<close> = 1398: two
  triggers 134 ms apart.
\<close>

theorem cooldown_relock_counterexample:
  "snd (execs (PangDetector 3) relockCalls) = [(0, Num (- 15)), (1, Num (- 15))] \<and>
   snd (process (final locked3 [relockPeak1]) (fst relockValley1) 0 3) = Some (0, Num (- 15)) \<and>
   nowOf 3 relockValley1 = Num 1264 \<and>
   snd (process
         (final (lockLayout (final locked3 [relockPeak1, relockValley1])
                   [Num 100, Num 140, Num 180] (Num 15) 1) [relockPeak2])
         (fst relockValley2) 0 3) = Some (1, Num (- 15)) \<and>
   nowOf 3 relockValley2 = Num 1398 \<and>
   Num 1398 - Num 1264 < Num 500"
proof -
  have "Num 1398 - Num 1264 < Num 500" by simp
  with relock_trace relock_times show ?thesis by blast
qed

text \<open>
  Claim C4, amended. Within one content block (a sequence of \<^verbatim>\<open>process\<close> calls from any
  state, with no \<^verbatim>\<open>lockLayout\<close> or \<^verbatim>\<open>reset\<close> between them) whose calls all carry a
  numeric newest timestamp, the timestamps \<^verbatim>\<open>now\<close> of any two calls that fire are at
  least 500 ms apart, the later call having the later timestamp: two valleys less than
  500 ms apart give at most one trigger. A call fires only if
  \<^verbatim>\<open>now - lastTriggerTime < 500\<close> is false, which for numbers means
  \<^verbatim>\<open>now - lastTriggerTime\<close> is at least 500, and firing sets \<^verbatim>\<open>lastTriggerTime\<close> to
  \<^verbatim>\<open>now\<close>. \<^verbatim>\<open>lockLayout\<close> and \<^verbatim>\<open>reset\<close> set \<^verbatim>\<open>lastTriggerTime\<close> to 0, so the
  cooldown does not reach into the next content block.
\<close>

theorem cooldown_enforcement:
  "((\<forall>inp \<in> set ins. nowOf (bufSize d) inp \<noteq> NaN) \<longrightarrow>
      sorted_wrt (\<lambda>a b. a + Num 500 \<le> b) (firedTimes (bufSize d) ins (run d ins))) \<and>
   (\<forall>b gIdx gCount p.
      snd (process d b gIdx gCount) = Some p \<longrightarrow>
        \<not> nowOf (bufSize d) (b, gIdx, gCount) - lastTriggerTime d < Num 500 \<and>
        (nowOf (bufSize d) (b, gIdx, gCount) \<noteq> NaN \<and> lastTriggerTime d \<noteq> NaN \<longrightarrow>
           Num 500 \<le> nowOf (bufSize d) (b, gIdx, gCount) - lastTriggerTime d) \<and>
        lastTriggerTime (fst (process d b gIdx gCount)) = nowOf (bufSize d) (b, gIdx, gCount)) \<and>
   lastTriggerTime (lockLayout d ys h perfNow) = Num 0 \<and>
   lastTriggerTime (reset d) = Num 0"
proof -
  have "lastTriggerTime (lockLayout d ys h perfNow) = Num 0" "lastTriggerTime (reset d) = Num 0"
    by (simp_all add: lockLayout_def reset_def)
  with firedTimes_sorted process_Some_trigger cooldown_ge show ?thesis by blast
qed

lemma firedTimes_sweep:
  "firedTimes 3 sweepInputs (run locked3 sweepInputs) = [Num 1132, Num 1766]"
  by (simp add: run_sweep) (simp add: sweepInputs_def nowOf_def readFrame_def jsmod_def rd_def mkBufs_def)

lemma nowOf_sweep: "\<forall>inp \<in> set sweepInputs. nowOf 3 inp \<noteq> NaN"
  by (simp add: sweepInputs_def nowOf_def readFrame_def jsmod_def rd_def mkBufs_def)

lemma bufSize_locked3: "bufSize locked3 = 3"
  by (simp add: locked3_def lockLayout_def PangDetector_def)

theorem cooldown_enforcement_witness:
  "firedTimes 3 sweepInputs (run locked3 sweepInputs) = [Num 1132, Num 1766] \<and>
   sorted_wrt (\<lambda>a b. a + Num 500 \<le> b) (firedTimes 3 sweepInputs (run locked3 sweepInputs)) \<and>
   Num 1132 + Num 500 \<le> Num 1766 \<and>
   lastTriggerTime (fst (process (final locked3 (take 2 sweepInputs)) (fst (sweepInputs ! 2)) 2 3))
     = Num 1132"
proof -
  have fire: "snd (process (final locked3 (take 2 sweepInputs)) (fst (sweepInputs ! 2)) 2 3)
     = Some (0, Num (- (160 / 11)))"
    by (simp add: eval_defs)
  have now: "nowOf 3 (fst (sweepInputs ! 2), 2, 3) = Num 1132"
    by (simp add: sweepInputs_def nowOf_def readFrame_def jsmod_def rd_def mkBufs_def)
  have bs: "bufSize (final locked3 (take 2 sweepInputs)) = 3"
    by (simp add: sweepInputs_def bufSize_locked3)
  from cooldown_enforcement[of sweepInputs locked3 "[]" "Num 0" 0] nowOf_sweep bufSize_locked3
  have 1: "sorted_wrt (\<lambda>a b. a + Num 500 \<le> b) (firedTimes 3 sweepInputs (run locked3 sweepInputs))"
    by simp
  from cooldown_enforcement[of "[]" "final locked3 (take 2 sweepInputs)" "[]" "Num 0" 0] fire
  have "lastTriggerTime (fst (process (final locked3 (take 2 sweepInputs)) (fst (sweepInputs ! 2)) 2 3))
     = nowOf (bufSize (final locked3 (take 2 sweepInputs))) (fst (sweepInputs ! 2), 2, 3)"
    by blast
  with bs now 1 firedTimes_sweep show ?thesis by simp
qed

section \<open>Cascade window\<close>

lemma analyse_peakTime:
  "lastPeakTime (fst (analyse d f)) =
     (if l_isPosPeak (snd (analyse d f)) \<or> l_isVelZeroCross (snd (analyse d f))
      then f_t1 f else lastPeakTime d)"
  by (simp add: analyse_def Let_def)

lemma deep_t1_num:
  assumes "l_isDeepEnough (snd (analyse d f))"
  shows "f_t1 f \<noteq> NaN"
proof
  assume n: "f_t1 f = NaN"
  then have "l_vx1 (snd (analyse d f)) = Num 0" by (simp add: analyse_def Let_def)
  with assms show False by (simp add: analyse_def Let_def)
qed

lemma window_arith:
  "a \<noteq> NaN \<Longrightarrow> p \<noteq> NaN \<Longrightarrow> \<not> Num 600 \<le> \<bar>a - p\<bar> \<Longrightarrow> \<bar>a - p\<bar> < Num 600"
  by (cases a; cases p) simp_all

lemma process_Some_window:
  assumes "snd (process d b gIdx gCount) = Some p"
  shows "\<not> Num 600 \<le> \<bar>f_t1 (frameOf d b gIdx) - lastPeakTime (analysed d b gIdx)\<bar>"
    and "f_t1 (frameOf d b gIdx) \<noteq> NaN"
proof -
  let ?f = "readFrame (bufSize d) b gIdx"
  from assms have big: "\<not> gCount < 3" by (auto simp: process_small)
  with assms have g: "snd (gate (fst (analyse d ?f)) ?f (snd (analyse d ?f))) = Some (fst p, snd p)"
    by (simp add: process_large)
  from gate_Some(7)[OF g]
  show "\<not> Num 600 \<le> \<bar>f_t1 ?f - lastPeakTime (fst (analyse d ?f))\<bar>" .
  from gate_Some(3)[OF g] show "f_t1 ?f \<noteq> NaN" by (rule deep_t1_num)
qed

text \<open>
  Claim C5. When the gate is evaluated, the recorded peak time is the valley time
  \<open>t(t-1)\<close> of this call if its peak tracker detected a position peak or a velocity
  zero crossing, and otherwise the time recorded before the call. A call fires only if
  the absolute difference between the valley time and the recorded peak time is below
  600 ms (the recorded time being a number), also when the valley precedes the peak; at
  a distance of 600 ms or more it never fires.
\<close>

theorem cascade_window:
  "lastPeakTime (analysed d b gIdx) =
     (if l_isPosPeak (localsOf d b gIdx) \<or> l_isVelZeroCross (localsOf d b gIdx)
      then f_t1 (frameOf d b gIdx) else lastPeakTime d) \<and>
   (snd (process d b gIdx gCount) \<noteq> None \<and> lastPeakTime d \<noteq> NaN \<longrightarrow>
      \<bar>f_t1 (frameOf d b gIdx) - lastPeakTime (analysed d b gIdx)\<bar> < Num 600) \<and>
   (Num 600 \<le> \<bar>f_t1 (frameOf d b gIdx) - lastPeakTime (analysed d b gIdx)\<bar> \<longrightarrow>
      snd (process d b gIdx gCount) = None)"
proof -
  let ?f = "readFrame (bufSize d) b gIdx"
  let ?r = "lastPeakTime (fst (analyse d ?f))"
  have 1: "?r = (if l_isPosPeak (snd (analyse d ?f)) \<or> l_isVelZeroCross (snd (analyse d ?f))
                 then f_t1 ?f else lastPeakTime d)"
    by (rule analyse_peakTime)
  have 2: "\<bar>f_t1 ?f - ?r\<bar> < Num 600"
    if "snd (process d b gIdx gCount) \<noteq> None" and pk: "lastPeakTime d \<noteq> NaN"
  proof -
    from that obtain p where s: "snd (process d b gIdx gCount) = Some p" by auto
    note w = process_Some_window[OF s]
    from w(2) pk 1 have "?r \<noteq> NaN" by simp
    from window_arith[OF w(2) this w(1)] show ?thesis .
  qed
  have 3: "snd (process d b gIdx gCount) = None" if "Num 600 \<le> \<bar>f_t1 ?f - ?r\<bar>"
  proof (cases "snd (process d b gIdx gCount)")
    case (Some p)
    from process_Some_window(1)[OF Some] that show ?thesis by simp
  qed simp
  from 1 2 3 show ?thesis by blast
qed

lemma final_jitter1:
  "final locked3 [jitterPeak] =
     \<lparr> bufSize = 3, sx1 = Num 235, sx2 = Num 0, vx2 = Num 2,
       lastPeakTime = Num 1200, lastTriggerTime = Num 0, maxLineReached = - 1,
       firstContentTime = Num 1, lineYs = Some [Num 100, Num 140, Num 180],
       lineHalf = Num 15, lineCount = 3, currentLine = Some 1,
       lastLineChangeT = Num 1233 \<rparr>"
  by (simp add: jitterPeak_def jitterValley_def eval_defs)

theorem cascade_window_witness:
  "lastPeakTime (final locked3 [jitterPeak]) = Num 1200 \<and>
   f_t1 (frameOf (final locked3 [jitterPeak]) (fst jitterValley) 0) = Num 1100 \<and>
   snd (process (final locked3 [jitterPeak]) (fst jitterValley) 0 3)
     = Some (0, Num (- (24 / 5))) \<and>
   \<bar>Num 1100 - Num 1200\<bar> < Num 600 \<and>
   lastPeakTime locked3 = Num 0 \<and>
   f_t1 (frameOf locked3 (fst (sweepInputs ! 2)) 2) = Num 1099 \<and>
   Num 600 \<le> \<bar>Num 1099 - Num 0\<bar> \<and>
   snd (process locked3 (fst (sweepInputs ! 2)) 2 3) = None"
proof -
  let ?d = "final locked3 [jitterPeak]"
  let ?b = "fst jitterValley"
  have pk: "lastPeakTime ?d = Num 1200" unfolding final_jitter1 by simp
  have t1: "f_t1 (frameOf ?d ?b 0) = Num 1100"
    unfolding final_jitter1 by (simp add: jitterPeak_def jitterValley_def readFrame_def jsmod_def rd_def mkBufs_def)
  have fire: "snd (process ?d ?b 0 3) = Some (0, Num (- (24 / 5)))"
    unfolding final_jitter1 by (simp add: jitterPeak_def jitterValley_def eval_defs)
  have rec: "lastPeakTime (analysed ?d ?b 0) = Num 1200"
    unfolding final_jitter1 by (simp add: jitterPeak_def jitterValley_def eval_defs)
  have "snd (process ?d ?b 0 3) \<noteq> None \<and> lastPeakTime ?d \<noteq> NaN"
    by (simp add: fire pk)
  with cascade_window[of ?d ?b 0 3]
  have "\<bar>f_t1 (frameOf ?d ?b 0) - lastPeakTime (analysed ?d ?b 0)\<bar> < Num 600" by blast
  then have a: "\<bar>Num 1100 - Num 1200\<bar> < Num 600" by (simp only: t1 rec)
  have pk': "lastPeakTime locked3 = Num 0" by (simp add: locked3_def lockLayout_def)
  have t1': "f_t1 (frameOf locked3 (fst (sweepInputs ! 2)) 2) = Num 1099"
    by (simp add: eval_defs)
  have rec': "lastPeakTime (analysed locked3 (fst (sweepInputs ! 2)) 2) = Num 0"
    by (simp add: eval_defs)
  have far: "Num 600 \<le> \<bar>Num 1099 - Num 0\<bar>" by simp
  then have "Num 600 \<le> \<bar>f_t1 (frameOf locked3 (fst (sweepInputs ! 2)) 2)
               - lastPeakTime (analysed locked3 (fst (sweepInputs ! 2)) 2)\<bar>"
    by (simp only: t1' rec')
  with cascade_window[of locked3 "fst (sweepInputs ! 2)" 2 3]
  have b: "snd (process locked3 (fst (sweepInputs ! 2)) 2 3) = None" by blast
  from pk t1 fire a pk' t1' far b show ?thesis by blast
qed

section \<open>Smoothing and velocity\<close>

lemma jsnum_mult_commute: "(a::jsnum) * b = b * a"
  by (cases a; cases b) simp_all

lemma analyse_sx0: "l_sx0 (snd (analyse d f)) = spec_smoothX (f_x0 f) (f_x1 f) (f_x2 f)"
  by (simp add: analyse_def Let_def spec_smoothX_def jsnum_mult_commute)

lemma analyse_caches:
  "sx1 (fst (analyse d f)) = l_sx0 (snd (analyse d f))"
  "sx2 (fst (analyse d f)) = sx1 d"
  "vx2 (fst (analyse d f)) = l_vx1 (snd (analyse d f))"
  by (simp_all add: analyse_def Let_def)

lemma velocity_spec:
  "ta \<noteq> NaN \<Longrightarrow> tb \<noteq> NaN \<Longrightarrow>
     (if ta - tb > Num 0 then (xa - xb) / (ta - tb) else Num 0) = spec_velocity xa xb ta tb"
  by (cases ta; cases tb) (auto simp: spec_velocity_def)

lemma velocity_zero:
  "ta - tb \<le> Num 0 \<Longrightarrow> (if ta - tb > Num 0 then (xa - xb) / (ta - tb) else Num 0) = Num 0"
  by (cases ta; cases tb) auto

lemma analyse_vx0:
  "l_vx0 (snd (analyse d f)) =
     (if f_t0 f - f_t1 f > Num 0 then (f_x0 f - f_x1 f) / (f_t0 f - f_t1 f) else Num 0)"
  by (simp add: analyse_def Let_def)

lemma analyse_vx1:
  "l_vx1 (snd (analyse d f)) =
     (if f_t1 f - f_t2 f > Num 0 then (f_x1 f - f_x2 f) / (f_t1 f - f_t2 f) else Num 0)"
  by (simp add: analyse_def Let_def)

text \<open>
  Claim C6. A call with at least three buffered samples runs the gate on the values of
  sections A to E. The smoothed X it computes, and caches as \<open>sx(t-1)\<close> for the
  next call, is the specification's \<open>0.5 x(t) + 0.3 x(t-1) + 0.2 x(t-2)\<close>. For
  numeric timestamps its two velocities are the specification's quotient for the pairs
  \<open>(t, t-1)\<close> and \<open>(t-1, t-2)\<close>, the second being cached as \<open>v(t-2)\<close>, and
  a velocity is exactly 0 whenever its timestamp delta is at most 0.
\<close>

theorem smoothing_and_velocity:
  "3 \<le> gCount \<longrightarrow>
     process d b gIdx gCount =
       gate (analysed d b gIdx) (frameOf d b gIdx) (localsOf d b gIdx) \<and>
     l_sx0 (localsOf d b gIdx) =
       spec_smoothX (f_x0 (frameOf d b gIdx)) (f_x1 (frameOf d b gIdx)) (f_x2 (frameOf d b gIdx)) \<and>
     sx1 (fst (process d b gIdx gCount)) = l_sx0 (localsOf d b gIdx) \<and>
     vx2 (fst (process d b gIdx gCount)) = l_vx1 (localsOf d b gIdx) \<and>
     (f_t0 (frameOf d b gIdx) \<noteq> NaN \<and> f_t1 (frameOf d b gIdx) \<noteq> NaN \<longrightarrow>
        l_vx0 (localsOf d b gIdx) =
          spec_velocity (f_x0 (frameOf d b gIdx)) (f_x1 (frameOf d b gIdx))
                        (f_t0 (frameOf d b gIdx)) (f_t1 (frameOf d b gIdx))) \<and>
     (f_t1 (frameOf d b gIdx) \<noteq> NaN \<and> f_t2 (frameOf d b gIdx) \<noteq> NaN \<longrightarrow>
        l_vx1 (localsOf d b gIdx) =
          spec_velocity (f_x1 (frameOf d b gIdx)) (f_x2 (frameOf d b gIdx))
                        (f_t1 (frameOf d b gIdx)) (f_t2 (frameOf d b gIdx))) \<and>
     (f_t0 (frameOf d b gIdx) - f_t1 (frameOf d b gIdx) \<le> Num 0 \<longrightarrow>
        l_vx0 (localsOf d b gIdx) = Num 0) \<and>
     (f_t1 (frameOf d b gIdx) - f_t2 (frameOf d b gIdx) \<le> Num 0 \<longrightarrow>
        l_vx1 (localsOf d b gIdx) = Num 0)"
proof
  assume "3 \<le> gCount"
  then have big: "\<not> gCount < 3" by simp
  let ?f = "readFrame (bufSize d) b gIdx"
  have 1: "process d b gIdx gCount = gate (fst (analyse d ?f)) ?f (snd (analyse d ?f))"
    using big by (rule process_large)
  have 2: "l_sx0 (snd (analyse d ?f)) = spec_smoothX (f_x0 ?f) (f_x1 ?f) (f_x2 ?f)"
    by (rule analyse_sx0)
  have 3: "sx1 (fst (process d b gIdx gCount)) = l_sx0 (snd (analyse d ?f))"
    by (simp add: 1 analyse_caches)
  have 4: "vx2 (fst (process d b gIdx gCount)) = l_vx1 (snd (analyse d ?f))"
    by (simp add: 1 analyse_caches)
  have 5: "l_vx0 (snd (analyse d ?f)) = spec_velocity (f_x0 ?f) (f_x1 ?f) (f_t0 ?f) (f_t1 ?f)"
    if "f_t0 ?f \<noteq> NaN \<and> f_t1 ?f \<noteq> NaN"
    unfolding analyse_vx0 using that velocity_spec[of "f_t0 ?f" "f_t1 ?f"] by blast
  have 6: "l_vx1 (snd (analyse d ?f)) = spec_velocity (f_x1 ?f) (f_x2 ?f) (f_t1 ?f) (f_t2 ?f)"
    if "f_t1 ?f \<noteq> NaN \<and> f_t2 ?f \<noteq> NaN"
    unfolding analyse_vx1 using that velocity_spec[of "f_t1 ?f" "f_t2 ?f"] by blast
  have 7: "l_vx0 (snd (analyse d ?f)) = Num 0" if "f_t0 ?f - f_t1 ?f \<le> Num 0"
    unfolding analyse_vx0 using that by (rule velocity_zero)
  have 8: "l_vx1 (snd (analyse d ?f)) = Num 0" if "f_t1 ?f - f_t2 ?f \<le> Num 0"
    unfolding analyse_vx1 using that by (rule velocity_zero)
  from 1 2 3 4 5 6 7 8
  show "process d b gIdx gCount =
       gate (analysed d b gIdx) (frameOf d b gIdx) (localsOf d b gIdx) \<and>
     l_sx0 (localsOf d b gIdx) =
       spec_smoothX (f_x0 (frameOf d b gIdx)) (f_x1 (frameOf d b gIdx)) (f_x2 (frameOf d b gIdx)) \<and>
     sx1 (fst (process d b gIdx gCount)) = l_sx0 (localsOf d b gIdx) \<and>
     vx2 (fst (process d b gIdx gCount)) = l_vx1 (localsOf d b gIdx) \<and>
     (f_t0 (frameOf d b gIdx) \<noteq> NaN \<and> f_t1 (frameOf d b gIdx) \<noteq> NaN \<longrightarrow>
        l_vx0 (localsOf d b gIdx) =
          spec_velocity (f_x0 (frameOf d b gIdx)) (f_x1 (frameOf d b gIdx))
                        (f_t0 (frameOf d b gIdx)) (f_t1 (frameOf d b gIdx))) \<and>
     (f_t1 (frameOf d b gIdx) \<noteq> NaN \<and> f_t2 (frameOf d b gIdx) \<noteq> NaN \<longrightarrow>
        l_vx1 (localsOf d b gIdx) =
          spec_velocity (f_x1 (frameOf d b gIdx)) (f_x2 (frameOf d b gIdx))
                        (f_t1 (frameOf d b gIdx)) (f_t2 (frameOf d b gIdx))) \<and>
     (f_t0 (frameOf d b gIdx) - f_t1 (frameOf d b gIdx) \<le> Num 0 \<longrightarrow>
        l_vx0 (localsOf d b gIdx) = Num 0) \<and>
     (f_t1 (frameOf d b gIdx) - f_t2 (frameOf d b gIdx) \<le> Num 0 \<longrightarrow>
        l_vx1 (localsOf d b gIdx) = Num 0)"
    by blast
qed

lemma frame_sweep3:
  "frameOf locked3 (fst (sweepInputs ! 2)) 2 =
     \<lparr> f_t0 = Num 1132, f_t1 = Num 1099, f_t2 = Num 1066,
       f_x0 = Num 40, f_x1 = Num 20, f_x2 = Num 500, f_y0 = Num 140 \<rparr>"
  by (simp add: eval_defs)

lemma frame_stalled:
  "frameOf locked3 (fst stalledInput) 0 =
     \<lparr> f_t0 = Num 1033, f_t1 = Num 1033, f_t2 = Num 1000,
       f_x0 = Num 500, f_x1 = Num 300, f_x2 = Num 100, f_y0 = Num 100 \<rparr>"
  by (simp add: stalledInput_def eval_defs)

theorem smoothing_and_velocity_witness:
  "sx1 (fst (process locked3 (fst (sweepInputs ! 2)) 2 3)) = Num 126 \<and>
   spec_smoothX (Num 40) (Num 20) (Num 500) = Num 126 \<and>
   l_vx0 (localsOf locked3 (fst (sweepInputs ! 2)) 2) = Num (20 / 33) \<and>
   spec_velocity (Num 40) (Num 20) (Num 1132) (Num 1099) = Num (20 / 33) \<and>
   vx2 (fst (process locked3 (fst (sweepInputs ! 2)) 2 3)) = Num (- (160 / 11)) \<and>
   spec_velocity (Num 20) (Num 500) (Num 1099) (Num 1066) = Num (- (160 / 11)) \<and>
   Num 1033 - Num 1033 \<le> Num 0 \<and>
   l_vx0 (localsOf locked3 (fst stalledInput) 0) = Num 0"
proof -
  let ?b = "fst (sweepInputs ! 2)"
  have c: "(3::int) \<le> 3" by simp
  have fx: "f_x0 (frameOf locked3 ?b 2) = Num 40" "f_x1 (frameOf locked3 ?b 2) = Num 20"
    "f_x2 (frameOf locked3 ?b 2) = Num 500"
    and ft: "f_t0 (frameOf locked3 ?b 2) = Num 1132" "f_t1 (frameOf locked3 ?b 2) = Num 1099"
    "f_t2 (frameOf locked3 ?b 2) = Num 1066"
    unfolding frame_sweep3 by simp_all
  from ft have n: "f_t0 (frameOf locked3 ?b 2) \<noteq> NaN \<and> f_t1 (frameOf locked3 ?b 2) \<noteq> NaN"
    "f_t1 (frameOf locked3 ?b 2) \<noteq> NaN \<and> f_t2 (frameOf locked3 ?b 2) \<noteq> NaN"
    by simp_all
  from smoothing_and_velocity[of 3 locked3 ?b 2] c n have
    "sx1 (fst (process locked3 ?b 2 3)) =
       spec_smoothX (f_x0 (frameOf locked3 ?b 2)) (f_x1 (frameOf locked3 ?b 2))
         (f_x2 (frameOf locked3 ?b 2))"
    and "l_vx0 (localsOf locked3 ?b 2) =
       spec_velocity (f_x0 (frameOf locked3 ?b 2)) (f_x1 (frameOf locked3 ?b 2))
         (f_t0 (frameOf locked3 ?b 2)) (f_t1 (frameOf locked3 ?b 2))"
    and "vx2 (fst (process locked3 ?b 2 3)) =
       spec_velocity (f_x1 (frameOf locked3 ?b 2)) (f_x2 (frameOf locked3 ?b 2))
         (f_t1 (frameOf locked3 ?b 2)) (f_t2 (frameOf locked3 ?b 2))"
    by metis+
  then have
    a: "sx1 (fst (process locked3 ?b 2 3)) = spec_smoothX (Num 40) (Num 20) (Num 500)"
    and b: "l_vx0 (localsOf locked3 ?b 2) = spec_velocity (Num 40) (Num 20) (Num 1132) (Num 1099)"
    and e: "vx2 (fst (process locked3 ?b 2 3)) = spec_velocity (Num 20) (Num 500) (Num 1099) (Num 1066)"
    by (simp_all only: fx ft)
  have s1: "spec_smoothX (Num 40) (Num 20) (Num 500) = Num 126"
    by (simp add: spec_smoothX_def)
  have s2: "spec_velocity (Num 40) (Num 20) (Num 1132) (Num 1099) = Num (20 / 33)"
    by (simp add: spec_velocity_def)
  have s3: "spec_velocity (Num 20) (Num 500) (Num 1099) (Num 1066) = Num (- (160 / 11))"
    by (simp add: spec_velocity_def)
  have z: "Num 1033 - Num 1033 \<le> Num 0" by simp
  have "f_t0 (frameOf locked3 (fst stalledInput) 0) - f_t1 (frameOf locked3 (fst stalledInput) 0)
          \<le> Num 0"
    unfolding frame_stalled by simp
  with smoothing_and_velocity[of 3 locked3 "fst stalledInput" 0] c
  have f: "l_vx0 (localsOf locked3 (fst stalledInput) 0) = Num 0" by blast
  from a b e s1 s2 s3 z f show ?thesis by (simp only: simp_thms)
qed

section \<open>Steps without a valley\<close>

lemma updateLine_frame:
  "updateLineFromGaze d y t \<lparr> currentLine := currentLine d, lastLineChangeT := lastLineChangeT d \<rparr> = d"
  by (simp add: updateLineFromGaze_def split: option.splits)

lemma analyse_frame:
  "(fst (analyse d f)) \<lparr> sx1 := sx1 d, sx2 := sx2 d, vx2 := vx2 d,
       lastPeakTime := lastPeakTime d, currentLine := currentLine d,
       lastLineChangeT := lastLineChangeT d \<rparr> = d"
proof -
  let ?u = "updateLineFromGaze d (f_y0 f) (f_t0 f)"
  have "(fst (analyse d f)) \<lparr> sx1 := sx1 d, sx2 := sx2 d, vx2 := vx2 d,
       lastPeakTime := lastPeakTime d, currentLine := currentLine d,
       lastLineChangeT := lastLineChangeT d \<rparr>
     = ?u \<lparr> currentLine := currentLine d, lastLineChangeT := lastLineChangeT d \<rparr>"
    by (simp add: analyse_def Let_def)
  then show ?thesis by (simp only: updateLine_frame)
qed

lemma gate_no_valley:
  "\<not> (l_isVelValley l \<and> l_isDeepEnough l) \<Longrightarrow> gate d f l = (d, None)"
  by (auto simp: gate_def)

lemma process_jitterPeak:
  "process locked3 (fst jitterPeak) 0 3 =
     (\<lparr> bufSize = 3, sx1 = Num 235, sx2 = Num 0, vx2 = Num 2,
        lastPeakTime = Num 1200, lastTriggerTime = Num 0, maxLineReached = - 1,
        firstContentTime = Num 1, lineYs = Some [Num 100, Num 140, Num 180],
        lineHalf = Num 15, lineCount = 3, currentLine = Some 1,
        lastLineChangeT = Num 1233 \<rparr>, None)"
  by (simp add: jitterPeak_def eval_defs)

lemma locals_jitterPeak:
  "l_isVelValley (localsOf locked3 (fst jitterPeak) 0) = False"
  by (simp add: jitterPeak_def eval_defs)

lemma locked3_fields:
  "lastPeakTime locked3 = Num 0" "currentLine locked3 = None" "lastTriggerTime locked3 = Num 0"
  "maxLineReached locked3 = - 1"
  by (simp_all add: locked3_def lockLayout_def PangDetector_def)

text \<open>
  Claim C7 as stated does not hold. On the call below no velocity valley is detected, yet
  the peak tracker records a velocity zero crossing and the hit-test enters line 1:
  \<^verbatim>\<open>lastPeakTime\<close> changes from 0 to 1200 and \<^verbatim>\<open>currentLine\<close> from unknown to 1.
\<close>

theorem no_valley_mutation_counterexample:
  "\<not> l_isVelValley (localsOf locked3 (fst jitterPeak) 0) \<and>
   lastPeakTime locked3 = Num 0 \<and>
   lastPeakTime (fst (process locked3 (fst jitterPeak) 0 3)) = Num 1200 \<and>
   currentLine locked3 = None \<and>
   currentLine (fst (process locked3 (fst jitterPeak) 0 3)) = Some 1"
  by (simp add: locals_jitterPeak locked3_fields process_jitterPeak)

text \<open>
  Claim C7, amended. The valley tests are \<open>v(t-2) > v(t-1) < v(t)\<close> on the cached
  \<open>v(t-2)\<close> and \<open>v(t-1) < -0.4\<close>. On a call with at least three buffered
  samples where they do not both hold, the call ends after section E: no gate check, no
  callback, and \<^verbatim>\<open>lastTriggerTime\<close>, \<^verbatim>\<open>maxLineReached\<close>, the layout and the
  content start time are unchanged. The only fields that may differ from before the call
  are the rolling caches, the hit-test's \<^verbatim>\<open>currentLine\<close> and
  \<^verbatim>\<open>lastLineChangeT\<close>, and the peak tracker's \<^verbatim>\<open>lastPeakTime\<close>.
\<close>

theorem no_valley_frame:
  "l_isVelValley (localsOf d b gIdx) =
     (vx2 d > l_vx1 (localsOf d b gIdx) \<and> l_vx1 (localsOf d b gIdx) < l_vx0 (localsOf d b gIdx)) \<and>
   l_isDeepEnough (localsOf d b gIdx) = (l_vx1 (localsOf d b gIdx) < Num (- 0.4)) \<and>
   (3 \<le> gCount \<and>
    \<not> (l_isVelValley (localsOf d b gIdx) \<and> l_isDeepEnough (localsOf d b gIdx)) \<longrightarrow>
      process d b gIdx gCount = (analysed d b gIdx, None) \<and>
      lastTriggerTime (fst (process d b gIdx gCount)) = lastTriggerTime d \<and>
      maxLineReached (fst (process d b gIdx gCount)) = maxLineReached d \<and>
      (fst (process d b gIdx gCount))
         \<lparr> sx1 := sx1 d, sx2 := sx2 d, vx2 := vx2 d, lastPeakTime := lastPeakTime d,
           currentLine := currentLine d, lastLineChangeT := lastLineChangeT d \<rparr> = d)"
proof (intro conjI impI)
  show "l_isVelValley (localsOf d b gIdx) =
     (vx2 d > l_vx1 (localsOf d b gIdx) \<and> l_vx1 (localsOf d b gIdx) < l_vx0 (localsOf d b gIdx))"
    by (rule analyse_valley_tests)
  show "l_isDeepEnough (localsOf d b gIdx) = (l_vx1 (localsOf d b gIdx) < Num (- 0.4))"
    by (rule analyse_valley_tests)
next
  assume a: "3 \<le> gCount \<and>
   \<not> (l_isVelValley (localsOf d b gIdx) \<and> l_isDeepEnough (localsOf d b gIdx))"
  let ?f = "readFrame (bufSize d) b gIdx"
  from a have big: "\<not> gCount < 3" by simp
  from a have "gate (fst (analyse d ?f)) ?f (snd (analyse d ?f)) = (fst (analyse d ?f), None)"
    by (intro gate_no_valley) blast
  with process_large[OF big, of d b gIdx]
  have p: "process d b gIdx gCount = (fst (analyse d ?f), None)" by simp
  show "process d b gIdx gCount = (analysed d b gIdx, None)" by (rule p)
  show "lastTriggerTime (fst (process d b gIdx gCount)) = lastTriggerTime d"
    unfolding p by simp
  show "maxLineReached (fst (process d b gIdx gCount)) = maxLineReached d"
    unfolding p by simp
  show "(fst (process d b gIdx gCount))
         \<lparr> sx1 := sx1 d, sx2 := sx2 d, vx2 := vx2 d, lastPeakTime := lastPeakTime d,
           currentLine := currentLine d, lastLineChangeT := lastLineChangeT d \<rparr> = d"
    unfolding p by (simp add: analyse_frame)
qed

theorem no_valley_frame_witness:
  "process locked3 (fst jitterPeak) 0 3 = (analysed locked3 (fst jitterPeak) 0, None) \<and>
   lastTriggerTime (fst (process locked3 (fst jitterPeak) 0 3)) = Num 0 \<and>
   maxLineReached (fst (process locked3 (fst jitterPeak) 0 3)) = - 1 \<and>
   (fst (process locked3 (fst jitterPeak) 0 3))
      \<lparr> sx1 := Num 0, sx2 := Num 0, vx2 := Num 0, lastPeakTime := Num 0,
        currentLine := None, lastLineChangeT := Num 0 \<rparr> = locked3"
proof -
  have h: "(3::int) \<le> 3 \<and>
    \<not> (l_isVelValley (localsOf locked3 (fst jitterPeak) 0) \<and>
       l_isDeepEnough (localsOf locked3 (fst jitterPeak) 0))"
    by (simp add: locals_jitterPeak)
  have f: "sx1 locked3 = Num 0" "sx2 locked3 = Num 0" "vx2 locked3 = Num 0"
    "lastLineChangeT locked3 = Num 0"
    by (simp_all add: locked3_def lockLayout_def)
  from no_valley_frame[of locked3 "fst jitterPeak" 0 3] h
  have "process locked3 (fst jitterPeak) 0 3 = (analysed locked3 (fst jitterPeak) 0, None) \<and>
     lastTriggerTime (fst (process locked3 (fst jitterPeak) 0 3)) = lastTriggerTime locked3 \<and>
     maxLineReached (fst (process locked3 (fst jitterPeak) 0 3)) = maxLineReached locked3 \<and>
     (fst (process locked3 (fst jitterPeak) 0 3))
        \<lparr> sx1 := sx1 locked3, sx2 := sx2 locked3, vx2 := vx2 locked3,
          lastPeakTime := lastPeakTime locked3,
          currentLine := currentLine locked3, lastLineChangeT := lastLineChangeT locked3 \<rparr>
       = locked3"
    by blast
  then show ?thesis unfolding f locked3_fields .
qed

section \<open>The first call after a lock\<close>

text \<open>
  Claim C10. \<^verbatim>\<open>lockLayout\<close> sets the caches \<open>sx(t-1)\<close>, \<open>sx(t-2)\<close> and
  \<open>v(t-2)\<close> to 0. On the next call, whatever the buffers hold, the position-peak test
  is therefore \<open>sx(t) < 0\<close>, beside the zero-crossing test \<open>v(t-1) \<ge> 0\<close> and
  \<open>v(t) < 0\<close>, and the valley test is \<open>v(t-1) < 0\<close> together with
  \<open>v(t-1) < v(t)\<close>: the freshly computed values are compared with the constant 0 and
  not with cached values of earlier calls.
\<close>

theorem lock_zeroes_caches:
  "sx1 (lockLayout d ys h perfNow) = Num 0 \<and>
   sx2 (lockLayout d ys h perfNow) = Num 0 \<and>
   vx2 (lockLayout d ys h perfNow) = Num 0 \<and>
   l_isPosPeak (localsOf (lockLayout d ys h perfNow) b gIdx) =
     (l_sx0 (localsOf (lockLayout d ys h perfNow) b gIdx) < Num 0) \<and>
   l_isVelZeroCross (localsOf (lockLayout d ys h perfNow) b gIdx) =
     (l_vx1 (localsOf (lockLayout d ys h perfNow) b gIdx) \<ge> Num 0 \<and>
      l_vx0 (localsOf (lockLayout d ys h perfNow) b gIdx) < Num 0) \<and>
   l_isVelValley (localsOf (lockLayout d ys h perfNow) b gIdx) =
     (l_vx1 (localsOf (lockLayout d ys h perfNow) b gIdx) < Num 0 \<and>
      l_vx1 (localsOf (lockLayout d ys h perfNow) b gIdx)
        < l_vx0 (localsOf (lockLayout d ys h perfNow) b gIdx)) \<and>
   (3 \<le> gCount \<longrightarrow>
      process (lockLayout d ys h perfNow) b gIdx gCount =
        gate (analysed (lockLayout d ys h perfNow) b gIdx)
             (frameOf (lockLayout d ys h perfNow) b gIdx)
             (localsOf (lockLayout d ys h perfNow) b gIdx))"
proof -
  let ?k = "lockLayout d ys h perfNow"
  have c: "sx1 ?k = Num 0" "sx2 ?k = Num 0" "vx2 ?k = Num 0"
    by (simp_all add: lockLayout_def)
  have le: "Num 0 \<le> Num 0" by simp
  have p: "l_isPosPeak (localsOf ?k b gIdx) = (l_sx0 (localsOf ?k b gIdx) < Num 0)"
    unfolding analyse_peak_tests c using le by simp
  have zc: "l_isVelZeroCross (localsOf ?k b gIdx) =
     (l_vx1 (localsOf ?k b gIdx) \<ge> Num 0 \<and> l_vx0 (localsOf ?k b gIdx) < Num 0)"
    by (rule analyse_peak_tests)
  have v: "l_isVelValley (localsOf ?k b gIdx) =
     (l_vx1 (localsOf ?k b gIdx) < Num 0 \<and> l_vx1 (localsOf ?k b gIdx) < l_vx0 (localsOf ?k b gIdx))"
    unfolding analyse_valley_tests c by simp
  have g: "process ?k b gIdx gCount =
        gate (analysed ?k b gIdx) (frameOf ?k b gIdx) (localsOf ?k b gIdx)" if "3 \<le> gCount"
    using that by (intro process_large) simp
  from c p zc v g show ?thesis by blast
qed

lemma locals_sweep3:
  "l_sx0 (localsOf locked3 (fst (sweepInputs ! 2)) 2) = Num 126"
  "l_vx0 (localsOf locked3 (fst (sweepInputs ! 2)) 2) = Num (20 / 33)"
  "l_vx1 (localsOf locked3 (fst (sweepInputs ! 2)) 2) = Num (- (160 / 11))"
  by (simp_all add: eval_defs)

theorem lock_zeroes_caches_witness:
  "sx1 locked3 = Num 0 \<and> sx2 locked3 = Num 0 \<and> vx2 locked3 = Num 0 \<and>
   l_sx0 (localsOf locked3 (fst (sweepInputs ! 2)) 2) = Num 126 \<and>
   l_isPosPeak (localsOf locked3 (fst (sweepInputs ! 2)) 2) = False \<and>
   l_vx1 (localsOf locked3 (fst (sweepInputs ! 2)) 2) = Num (- (160 / 11)) \<and>
   l_vx0 (localsOf locked3 (fst (sweepInputs ! 2)) 2) = Num (20 / 33) \<and>
   l_isVelValley (localsOf locked3 (fst (sweepInputs ! 2)) 2) = True \<and>
   process locked3 (fst (sweepInputs ! 2)) 2 3 =
     gate (analysed locked3 (fst (sweepInputs ! 2)) 2) (frameOf locked3 (fst (sweepInputs ! 2)) 2)
          (localsOf locked3 (fst (sweepInputs ! 2)) 2)"
proof -
  note lz = lock_zeroes_caches[of "PangDetector 3" "[Num 100, Num 140, Num 180]" "Num 15" 1
      "fst (sweepInputs ! 2)" 2 3, folded locked3_def]
  have c: "(3::int) \<le> 3" by simp
  from lz have z: "sx1 locked3 = Num 0" "sx2 locked3 = Num 0" "vx2 locked3 = Num 0"
    by blast+
  from lz have "l_isPosPeak (localsOf locked3 (fst (sweepInputs ! 2)) 2) =
     (l_sx0 (localsOf locked3 (fst (sweepInputs ! 2)) 2) < Num 0)" by blast
  then have p: "l_isPosPeak (localsOf locked3 (fst (sweepInputs ! 2)) 2) = False"
    unfolding locals_sweep3 by simp
  from lz have "l_isVelValley (localsOf locked3 (fst (sweepInputs ! 2)) 2) =
     (l_vx1 (localsOf locked3 (fst (sweepInputs ! 2)) 2) < Num 0 \<and>
      l_vx1 (localsOf locked3 (fst (sweepInputs ! 2)) 2)
        < l_vx0 (localsOf locked3 (fst (sweepInputs ! 2)) 2))" by blast
  then have v: "l_isVelValley (localsOf locked3 (fst (sweepInputs ! 2)) 2) = True"
    unfolding locals_sweep3 by simp
  from lz c have g: "process locked3 (fst (sweepInputs ! 2)) 2 3 =
     gate (analysed locked3 (fst (sweepInputs ! 2)) 2) (frameOf locked3 (fst (sweepInputs ! 2)) 2)
          (localsOf locked3 (fst (sweepInputs ! 2)) 2)" by blast
  from z p v g locals_sweep3 show ?thesis by blast
qed

section \<open>Sticky hit-test\<close>

lemma band_abs: "((y::jsnum) \<ge> c - h \<and> y \<le> c + h) = (\<bar>y - c\<bar> \<le> h)"
  by (cases y; cases c; cases h) auto

lemma inBand_exact:
  "roundNum (c - h) = c - h \<Longrightarrow> roundNum (c + h) = c + h \<Longrightarrow> inBand c h y = (\<bar>y - c\<bar> \<le> h)"
  by (simp add: inBand_def band_abs)

lemma rd_nth: "i < length ys \<Longrightarrow> rd ys (Some (int i)) = ys ! i"
  by (simp add: rd_def)

lemma scanLines_find:
  "k \<le> length ys \<Longrightarrow>
     scanLines ys h y (int (length ys)) (int k) =
       map_option int (List.find (\<lambda>i. inBand (ys ! i) h y) [k..<length ys])"
proof (induction "length ys - k" arbitrary: k)
  case 0
  then have "k = length ys" by simp
  then show ?case by (simp add: scanLines.simps)
next
  case (Suc m)
  then have lt: "k < length ys" by simp
  from Suc(2) have m: "m = length ys - Suc k" by simp
  from lt have le: "Suc k \<le> length ys" by simp
  from Suc(1)[OF m le]
  have ih: "scanLines ys h y (int (length ys)) (int k + 1) =
       map_option int (List.find (\<lambda>i. inBand (ys ! i) h y) [Suc k..<length ys])"
    by (simp add: add.commute)
  have "scanLines ys h y (int (length ys)) (int k) =
      (if inBand (ys ! k) h y then Some (int k)
       else scanLines ys h y (int (length ys)) (int k + 1))"
    using lt by (subst scanLines.simps) (simp only: rd_nth[OF lt], simp)
  also have "\<dots> = map_option int (List.find (\<lambda>i. inBand (ys ! i) h y) [k..<length ys])"
    using lt by (simp only: ih upt_conv_Cons) simp
  finally show ?case .
qed

lemma updateLine_find:
  assumes "lineYs d = Some ys" and "lineCount d = int (length ys)"
  shows "currentLine (updateLineFromGaze d y t) =
           (case List.find (\<lambda>i. inBand (ys ! i) (lineHalf d) y) [0..<length ys] of
              None \<Rightarrow> currentLine d
            | Some i \<Rightarrow> Some (int i))"
proof (cases "length ys = 0")
  case True
  with assms show ?thesis by (simp add: updateLineFromGaze_def)
next
  case False
  have "scanLines ys (lineHalf d) y (int (length ys)) 0 =
      map_option int (List.find (\<lambda>i. inBand (ys ! i) (lineHalf d) y) [0..<length ys])"
    using scanLines_find[of 0 ys "lineHalf d" y] by simp
  with assms False show ?thesis
    by (auto simp: updateLineFromGaze_def split: option.splits)
qed

lemma updateLine_locate:
  assumes "lineYs d = Some ys" and "lineCount d = int (length ys)"
    and "\<forall>i<length ys. roundNum (ys ! i - lineHalf d) = ys ! i - lineHalf d \<and>
                        roundNum (ys ! i + lineHalf d) = ys ! i + lineHalf d"
  shows "currentLine (updateLineFromGaze d y t) = spec_locate ys (lineHalf d) y (currentLine d)"
proof -
  have "List.find (\<lambda>i. inBand (ys ! i) (lineHalf d) y) [0..<length ys] =
        List.find (\<lambda>i. \<bar>y - ys ! i\<bar> \<le> lineHalf d) [0..<length ys]"
    using assms(3) by (intro find_cong) (simp_all add: inBand_exact)
  with updateLine_find[OF assms(1,2), of y t] show ?thesis by (simp add: spec_locate_def)
qed

lemma updateLine_miss:
  assumes "lineYs d = Some ys" and "lineCount d = int (length ys)"
    and "\<forall>i<length ys. \<not> inBand (ys ! i) (lineHalf d) y"
  shows "updateLineFromGaze d y t = d"
proof -
  from assms(3) have "List.find (\<lambda>i. inBand (ys ! i) (lineHalf d) y) [0..<length ys] = None"
    by (simp add: find_None_iff)
  with scanLines_find[of 0 ys "lineHalf d" y]
  have "scanLines ys (lineHalf d) y (int (length ys)) 0 = None" by simp
  with assms(1,2) show ?thesis by (simp add: updateLineFromGaze_def)
qed

lemma find_first:
  assumes "i < n" and "P i" and "\<forall>j<i. \<not> P j"
  shows "List.find P [0..<n] = Some i"
proof -
  from assms have "\<exists>k<length [0..<n]. P ([0..<n] ! k) \<and> i = [0..<n] ! k \<and>
      (\<forall>j<k. \<not> P ([0..<n] ! j))"
    by (intro exI[of _ i]) simp
  then show ?thesis by (simp only: find_Some_iff)
qed

lemma updateLine_first:
  assumes "lineYs d = Some ys" and "lineCount d = int (length ys)"
    and "i < length ys" and "inBand (ys ! i) (lineHalf d) y"
    and "\<forall>j<i. \<not> inBand (ys ! j) (lineHalf d) y"
  shows "currentLine (updateLineFromGaze d y t) = Some (int i)"
  using updateLine_find[OF assms(1,2), of y t]
    find_first[of i "length ys" "\<lambda>i. inBand (ys ! i) (lineHalf d) y", OF assms(3,4,5)]
  by simp

lemma updateLine_Some:
  assumes "lineYs d = Some ys" and "lineCount d = int (length ys)"
  shows "(currentLine (updateLineFromGaze d y t) = None) =
         (currentLine d = None \<and> (\<forall>i<length ys. \<not> inBand (ys ! i) (lineHalf d) y))"
proof (cases "List.find (\<lambda>i. inBand (ys ! i) (lineHalf d) y) [0..<length ys]")
  case None
  then have "\<forall>i<length ys. \<not> inBand (ys ! i) (lineHalf d) y" by (simp add: find_None_iff)
  with None updateLine_find[OF assms, of y t] show ?thesis by simp
next
  case (Some i)
  then have "i < length ys \<and> inBand (ys ! i) (lineHalf d) y"
    by (auto simp: find_Some_iff)
  with Some updateLine_find[OF assms, of y t] show ?thesis by auto
qed

lemma hitTests_None:
  assumes "lineYs d = Some ys" and "lineCount d = int (length ys)"
  shows "(currentLine (hitTests d yts) = None) =
         (currentLine d = None \<and>
          (\<forall>yt \<in> set yts. \<forall>i<length ys. \<not> inBand (ys ! i) (lineHalf d) (fst yt)))"
  using assms
proof (induction yts arbitrary: d)
  case Nil
  then show ?case by simp
next
  case (Cons yt yts)
  obtain y t where yt: "yt = (y, t)" by (cases yt) auto
  let ?d = "updateLineFromGaze d y t"
  from Cons.prems have l: "lineYs ?d = Some ys" "lineCount ?d = int (length ys)" by simp_all
  from Cons.IH[OF l] updateLine_Some[OF Cons.prems, of y t] yt
  show ?case by auto
qed

lemma edgeLayout_fields:
  "lineYs edgeLayout = Some [Num 100]" "lineCount edgeLayout = 1"
  "lineHalf edgeLayout = Num edgeHalf" "currentLine edgeLayout = None"
  by (simp_all add: edgeLayout_def lockLayout_def)

lemma edge_inBand: "inBand (Num 100) (Num edgeHalf) (Num 122)"
  unfolding inBand_def minus_jsnum.simps plus_jsnum.simps roundNum.simps roundDouble_edge
  by simp

text \<open>
  Claim C8 as stated does not hold at the edge of a band. The layout below has one line
  centred at 100 with half-height \<open>22 - 2 ^ -48\<close>. The code compares the gaze with the
  rounded sum of centre and half-height, which is 122, so a gaze at 122 is on line 0,
  although its distance 22 from the centre exceeds the half-height and the
  specification's \<open>locate\<close> finds no line.
\<close>

theorem hit_test_edge_counterexample:
  "edgeHalf = 22 - 1 / 2 ^ 48 \<and>
   currentLine edgeLayout = None \<and>
   currentLine (updateLineFromGaze edgeLayout (Num 122) (Num 5)) = Some 0 \<and>
   \<not> \<bar>Num 122 - Num 100\<bar> \<le> Num edgeHalf \<and>
   spec_locate [Num 100] (Num edgeHalf) (Num 122) None = None"
proof -
  have s: "scanLines [Num 100] (Num edgeHalf) (Num 122) 1 0 = Some 0"
    by (subst scanLines.simps) (simp add: rd_def edge_inBand)
  have a: "currentLine (updateLineFromGaze edgeLayout (Num 122) (Num 5)) = Some 0"
    by (simp add: updateLineFromGaze_def edgeLayout_fields s)
  have b: "\<not> \<bar>Num 122 - Num 100\<bar> \<le> Num edgeHalf" by (simp add: edgeHalf_def)
  have c: "spec_locate [Num 100] (Num edgeHalf) (Num 122) None = None"
    by (simp add: spec_locate_def edgeHalf_def)
  from a b c edgeLayout_fields(4) edgeHalf_def show ?thesis by blast
qed

text \<open>
  Claim C8, amended. With a locked layout the hit-test sets the current line to the first
  index \<open>i\<close> whose band holds the gaze, the band reaching from \<open>centerY[i] - halfHeight\<close>
  to \<open>centerY[i] + halfHeight\<close> with both bounds as the code computes them, rounded to
  binary64. Where the two bounds of every line are computed exactly this is the
  specification's \<open>locate\<close>, the first index with
  \<open>|y - centerY[i]| \<le> halfHeight\<close>. When no band holds the gaze, or no layout is
  locked, the detector state is unchanged, so the current line is the one of the previous
  sample. After a lock the current line is unknown, and after any sequence of hit-tests
  it is still unknown exactly when no sample was in a band. The current line after a call
  of \<^verbatim>\<open>process\<close> with at least three buffered samples is the result of the hit-test on
  the newest sample.
\<close>

theorem sticky_hit_test:
  "(3 \<le> gCount \<longrightarrow>
      currentLine (fst (process d b gIdx gCount)) =
        currentLine (updateLineFromGaze d (f_y0 (frameOf d b gIdx)) (f_t0 (frameOf d b gIdx)))) \<and>
   (lineYs d = None \<longrightarrow> updateLineFromGaze d y t = d) \<and>
   inBand c hh yy = (yy \<ge> roundNum (c - hh) \<and> yy \<le> roundNum (c + hh)) \<and>
   (lineYs d = Some ys \<and> lineCount d = int (length ys) \<longrightarrow>
      (\<forall>i. i < length ys \<and> inBand (ys ! i) (lineHalf d) y \<and>
            (\<forall>j<i. \<not> inBand (ys ! j) (lineHalf d) y) \<longrightarrow>
              currentLine (updateLineFromGaze d y t) = Some (int i)) \<and>
      ((\<forall>i<length ys. \<not> inBand (ys ! i) (lineHalf d) y) \<longrightarrow> updateLineFromGaze d y t = d) \<and>
      ((\<forall>i<length ys. roundNum (ys ! i - lineHalf d) = ys ! i - lineHalf d \<and>
                       roundNum (ys ! i + lineHalf d) = ys ! i + lineHalf d) \<longrightarrow>
         currentLine (updateLineFromGaze d y t) = spec_locate ys (lineHalf d) y (currentLine d))) \<and>
   lineYs (lockLayout d ys h perfNow) = Some ys \<and>
   lineCount (lockLayout d ys h perfNow) = int (length ys) \<and>
   currentLine (lockLayout d ys h perfNow) = None \<and>
   (currentLine (hitTests (lockLayout d ys h perfNow) yts) = None) =
     (\<forall>yt \<in> set yts. \<forall>i<length ys. \<not> inBand (ys ! i) h (fst yt))"
proof -
  have 0: "currentLine (fst (process d b gIdx gCount)) =
        currentLine (updateLineFromGaze d (f_y0 (frameOf d b gIdx)) (f_t0 (frameOf d b gIdx)))"
    if "3 \<le> gCount"
  proof -
    from that have "\<not> gCount < 3" by simp
    then show ?thesis by (simp add: process_large gate_currentLine)
  qed
  have 1: "updateLineFromGaze d y t = d" if "lineYs d = None"
    using that by (simp add: updateLineFromGaze_def)
  have 2: "inBand c hh yy = (yy \<ge> roundNum (c - hh) \<and> yy \<le> roundNum (c + hh))"
    by (rule inBand_def)
  have 3: "currentLine (updateLineFromGaze d y t) = Some (int i)"
    if "lineYs d = Some ys \<and> lineCount d = int (length ys)"
      and "i < length ys \<and> inBand (ys ! i) (lineHalf d) y \<and>
            (\<forall>j<i. \<not> inBand (ys ! j) (lineHalf d) y)" for i
    using that updateLine_first by blast
  have 4: "updateLineFromGaze d y t = d"
    if "lineYs d = Some ys \<and> lineCount d = int (length ys)"
      and "\<forall>i<length ys. \<not> inBand (ys ! i) (lineHalf d) y"
    using that updateLine_miss by blast
  have 5: "currentLine (updateLineFromGaze d y t) = spec_locate ys (lineHalf d) y (currentLine d)"
    if "lineYs d = Some ys \<and> lineCount d = int (length ys)"
      and "\<forall>i<length ys. roundNum (ys ! i - lineHalf d) = ys ! i - lineHalf d \<and>
                       roundNum (ys ! i + lineHalf d) = ys ! i + lineHalf d"
    using that updateLine_locate by blast
  let ?k = "lockLayout d ys h perfNow"
  have 6: "lineYs ?k = Some ys" "lineCount ?k = int (length ys)" "currentLine ?k = None"
    "lineHalf ?k = h"
    by (simp_all add: lockLayout_def)
  from hitTests_None[OF 6(1,2), of yts] 6(3,4)
  have 7: "(currentLine (hitTests ?k yts) = None) =
     (\<forall>yt \<in> set yts. \<forall>i<length ys. \<not> inBand (ys ! i) h (fst yt))" by simp
  from 0 1 2 3 4 5 6(1,2,3) 7 show ?thesis by blast
qed

lemma locked3_layout:
  "lineYs locked3 = Some [Num 100, Num 140, Num 180]"
  "lineCount locked3 = int (length [Num 100, Num 140, Num 180])"
  "lineHalf locked3 = Num 15"
  by (simp_all add: locked3_def lockLayout_def)

lemma overlapping_layout:
  "lineYs overlapping = Some [Num 100, Num 110]"
  "lineCount overlapping = int (length [Num 100, Num 110])"
  "lineHalf overlapping = Num 15"
  by (simp_all add: overlapping_def lockLayout_def)

theorem sticky_hit_test_witness:
  "currentLine (updateLineFromGaze locked3 (Num 140) (Num 5)) = Some 1 \<and>
   spec_locate [Num 100, Num 140, Num 180] (Num 15) (Num 140) None = Some 1 \<and>
   currentLine (updateLineFromGaze overlapping (Num 105) (Num 5)) = Some 0 \<and>
   updateLineFromGaze (updateLineFromGaze locked3 (Num 140) (Num 5)) (Num 120) (Num 6)
     = updateLineFromGaze locked3 (Num 140) (Num 5) \<and>
   updateLineFromGaze (PangDetector 3) (Num 140) (Num 5) = PangDetector 3 \<and>
   currentLine (hitTests locked3 [(Num 120, Num 1), (Num 500, Num 2)]) = None \<and>
   currentLine (fst (process locked3 (fst jitterPeak) 0 3)) =
     currentLine (updateLineFromGaze locked3 (f_y0 (frameOf locked3 (fst jitterPeak) 0))
                    (f_t0 (frameOf locked3 (fst jitterPeak) 0)))"
proof -
  let ?ys = "[Num 100, Num 140, Num 180]"
  let ?d1 = "updateLineFromGaze locked3 (Num 140) (Num 5)"
  note inst = sticky_hit_test[where d = locked3 and y = "Num 140" and t = "Num 5" and ys = ?ys
        and h = "Num 15" and perfNow = 1 and yts = "[]"
        and c = "Num 100" and hh = "Num 15" and yy = "Num 140"
        and b = "fst jitterPeak" and gIdx = 0 and gCount = 3]
  have a: "currentLine ?d1 = Some 1"
  proof -
    have "(1::nat) < length ?ys \<and> inBand (?ys ! 1) (lineHalf locked3) (Num 140) \<and>
          (\<forall>j<1. \<not> inBand (?ys ! j) (lineHalf locked3) (Num 140))"
      by (simp add: locked3_layout inBand_def roundDouble_values)
    with inst locked3_layout(1,2)
    have "currentLine ?d1 = Some (int 1)" by blast
    then show ?thesis by simp
  qed
  have a': "spec_locate ?ys (Num 15) (Num 140) None = Some 1"
  proof -
    have "\<forall>i<length ?ys. roundNum (?ys ! i - lineHalf locked3) = ?ys ! i - lineHalf locked3 \<and>
                         roundNum (?ys ! i + lineHalf locked3) = ?ys ! i + lineHalf locked3"
      by (simp add: locked3_layout less_Suc_eq roundDouble_values)
    with inst locked3_layout(1,2)
    have "currentLine ?d1 = spec_locate ?ys (lineHalf locked3) (Num 140) (currentLine locked3)"
      by blast
    with a show ?thesis by (simp add: locked3_layout locked3_def lockLayout_def)
  qed
  have b: "currentLine (updateLineFromGaze overlapping (Num 105) (Num 5)) = Some 0"
  proof -
    have "(0::nat) < length [Num 100, Num 110] \<and>
          inBand ([Num 100, Num 110] ! 0) (lineHalf overlapping) (Num 105) \<and>
          (\<forall>j<0. \<not> inBand ([Num 100, Num 110] ! j) (lineHalf overlapping) (Num 105))"
      by (simp add: overlapping_layout inBand_def roundDouble_values)
    with sticky_hit_test[where d = overlapping and y = "Num 105" and t = "Num 5"
        and ys = "[Num 100, Num 110]" and h = "Num 15" and perfNow = 1 and yts = "[]"
        and c = "Num 100" and hh = "Num 15" and yy = "Num 140"
        and b = "fst jitterPeak" and gIdx = 0 and gCount = 3]
      overlapping_layout(1,2)
    have "currentLine (updateLineFromGaze overlapping (Num 105) (Num 5)) = Some (int 0)"
      by blast
    then show ?thesis by simp
  qed
  have c: "updateLineFromGaze ?d1 (Num 120) (Num 6) = ?d1"
  proof -
    have l: "lineYs ?d1 = Some ?ys \<and> lineCount ?d1 = int (length ?ys)"
      by (simp add: locked3_layout)
    have "\<forall>i<length ?ys. \<not> inBand (?ys ! i) (lineHalf ?d1) (Num 120)"
      by (simp add: locked3_layout less_Suc_eq inBand_def roundDouble_values)
    with sticky_hit_test[where d = ?d1 and y = "Num 120" and t = "Num 6" and ys = ?ys
        and h = "Num 15" and perfNow = 1 and yts = "[]"
        and c = "Num 100" and hh = "Num 15" and yy = "Num 140"
        and b = "fst jitterPeak" and gIdx = 0 and gCount = 3] l
    show ?thesis by blast
  qed
  have e: "updateLineFromGaze (PangDetector 3) (Num 140) (Num 5) = PangDetector 3"
  proof -
    have "lineYs (PangDetector 3) = None" by (simp add: PangDetector_def)
    with sticky_hit_test[where d = "PangDetector 3" and y = "Num 140" and t = "Num 5"
        and ys = ?ys and h = "Num 15" and perfNow = 1 and yts = "[]"
        and c = "Num 100" and hh = "Num 15" and yy = "Num 140"
        and b = "fst jitterPeak" and gIdx = 0 and gCount = 3]
    show ?thesis by blast
  qed
  have f: "currentLine (hitTests locked3 [(Num 120, Num 1), (Num 500, Num 2)]) = None"
  proof -
    have "\<forall>yt \<in> set [(Num 120, Num 1), (Num 500, Num 2)].
            \<forall>i<length ?ys. \<not> inBand (?ys ! i) (Num 15) (fst yt)"
      by (simp add: less_Suc_eq inBand_def roundDouble_values)
    with sticky_hit_test[where d = "PangDetector 3" and y = "Num 140" and t = "Num 5"
        and ys = ?ys and h = "Num 15" and perfNow = 1
        and yts = "[(Num 120, Num 1), (Num 500, Num 2)]"
        and c = "Num 100" and hh = "Num 15" and yy = "Num 140"
        and b = "fst jitterPeak" and gIdx = 0 and gCount = 3, folded locked3_def]
    show ?thesis by blast
  qed
  have g: "currentLine (fst (process locked3 (fst jitterPeak) 0 3)) =
     currentLine (updateLineFromGaze locked3 (f_y0 (frameOf locked3 (fst jitterPeak) 0))
                    (f_t0 (frameOf locked3 (fst jitterPeak) 0)))"
  proof -
    have "(3::int) \<le> 3" by simp
    with inst show ?thesis by blast
  qed
  from a a' b c e f g show ?thesis by blast
qed

section \<open>Reset\<close>

lemma process_static:
  "bufSize (fst (process d b gIdx gCount)) = bufSize d"
  "lineHalf (fst (process d b gIdx gCount)) = lineHalf d"
  by (cases "gCount < 3"; simp add: process_small process_large)+

lemma execs_static:
  assumes "\<forall>c \<in> set cs. \<not> isLock c"
  shows "bufSize (fst (execs d cs)) = bufSize d \<and> lineHalf (fst (execs d cs)) = lineHalf d"
  using assms
proof (induction cs arbitrary: d)
  case Nil
  then show ?case by simp
next
  case (Cons c cs)
  from Cons.prems have r: "\<forall>c \<in> set cs. \<not> isLock c" and nl: "\<not> isLock c" by simp_all
  from nl have "bufSize (fst (exec d c)) = bufSize d \<and> lineHalf (fst (exec d c)) = lineHalf d"
    by (cases c) (simp_all add: process_static reset_def)
  with Cons.IH[OF r, of "fst (exec d c)"] show ?case by (simp add: split_beta)
qed

lemma reset_fresh:
  "bufSize d = n \<Longrightarrow> lineHalf d = Num 0 \<Longrightarrow> reset d = PangDetector n"
  by (cases d) (simp add: reset_def PangDetector_def)

lemma reset_reset: "reset (reset d) = reset d"
  by (simp add: reset_def)
text \<open>
  Claim C9. \<^verbatim>\<open>reset\<close> is a total function of the state and calling it twice gives
  the same state as calling it once. On a detector whose layout has never been locked,
  whatever \<^verbatim>\<open>process\<close> and \<^verbatim>\<open>reset\<close> calls came before, it gives exactly the
  freshly constructed detector. It clears every scalar it assigns and drops the layout,
  and until the next lock no call invokes the callback.
\<close>

theorem reset_idempotent:
  "reset (reset d) = reset d \<and>
   reset (PangDetector n) = PangDetector n \<and>
   ((\<forall>c \<in> set cs. \<not> isLock c) \<longrightarrow>
      reset (fst (execs (PangDetector n) cs)) = PangDetector n \<and>
      snd (execs (reset d) cs) = []) \<and>
   reset d = d \<lparr> sx1 := Num 0, sx2 := Num 0, vx2 := Num 0, lastPeakTime := Num 0,
                  lastTriggerTime := Num 0, maxLineReached := - 1,
                  firstContentTime := Num 0, currentLine := None,
                  lastLineChangeT := Num 0, lineYs := None, lineCount := 0 \<rparr>"
proof -
  have 1: "reset (reset d) = reset d" by (rule reset_reset)
  have f: "bufSize (PangDetector n) = n" "lineHalf (PangDetector n) = Num 0"
    by (simp_all add: PangDetector_def)
  have 2: "reset (PangDetector n) = PangDetector n"
    using f by (rule reset_fresh)
  have 3: "reset (fst (execs (PangDetector n) cs)) = PangDetector n"
    if a: "\<forall>c \<in> set cs. \<not> isLock c"
  proof -
    from execs_static[OF a, of "PangDetector n"] f
    have "bufSize (fst (execs (PangDetector n) cs)) = n"
      "lineHalf (fst (execs (PangDetector n) cs)) = Num 0" by simp_all
    then show ?thesis by (rule reset_fresh)
  qed
  have 4: "snd (execs (reset d) cs) = []" if a: "\<forall>c \<in> set cs. \<not> isLock c"
  proof -
    have "lineYs (reset d) = None" "currentLine (reset d) = None" by (simp_all add: reset_def)
    from execs_noLayout[OF a this] show ?thesis by simp
  qed
  have 5: "reset d = d \<lparr> sx1 := Num 0, sx2 := Num 0, vx2 := Num 0, lastPeakTime := Num 0,
                  lastTriggerTime := Num 0, maxLineReached := - 1,
                  firstContentTime := Num 0, currentLine := None,
                  lastLineChangeT := Num 0, lineYs := None, lineCount := 0 \<rparr>"
    by (rule reset_def)
  from 1 2 3 4 5 show ?thesis by blast
qed

theorem reset_idempotent_witness:
  "reset (reset locked3) = reset locked3 \<and>
   reset (PangDetector 3) = PangDetector 3 \<and>
   reset (fst (execs (PangDetector 3) (tl sweepCalls @ [Reset] @ tl sweepCalls))) = PangDetector 3 \<and>
   snd (execs (reset locked3) (tl sweepCalls @ [Reset] @ tl sweepCalls)) = []"
proof -
  have "\<forall>c \<in> set (tl sweepCalls @ [Reset] @ tl sweepCalls). \<not> isLock c"
    using noLock_tl_sweep by simp
  with reset_idempotent[of locked3 3 "tl sweepCalls @ [Reset] @ tl sweepCalls"]
  show ?thesis by blast
qed

end
